theory Spec2Isabelle
  imports Complex_Main "HOL-Library.Word"
begin

section \<open>Python values used by \<open>scripts/prepare_piano_assets.py\<close>\<close>

text \<open>
  Python floats are modelled as real numbers. The arithmetic that produces sample values is
  exact. A float expression that is turned into an integer by \<open>int(...)\<close>, a buffer length,
  a loop count, a sample offset or a PCM code, is rounded to the nearest double after
  each operation, as the machine does (subsection on rounding below), so that the integer
  is the one the code computes. Nothing overflows, and \<open>nan\<close> and the infinities are not
  values of the model. Python integers are \<open>int\<close>. An exception is the left summand of a
  result.

  Every float division of the modelled functions has a divisor that is not zero where it
  is evaluated: the divisions by \<open>sr\<close>, \<open>N\<close> and their multiples stand in loop bodies, and
  a loop over \<open>range(int(sr * c))\<close> or \<open>range(N)\<close> has no iteration when \<open>sr\<close> or \<open>N\<close> is
  zero. So \<open>ZeroDivisionError\<close> is not among the errors.
\<close>

datatype error = IndexError | KeyError | StructError | WaveError

text \<open>\<open>int(x)\<close> on a float truncates towards zero.\<close>

definition py_int :: "real \<Rightarrow> int" where
  "py_int x = (if 0 \<le> x then \<lfloor>x\<rfloor> else \<lceil>x\<rceil>)"

subsection \<open>Rounding to double\<close>

text \<open>
  \<open>rne\<close> rounds a real to the nearest integer, a tie to the even one. \<open>fl x\<close> is the double
  nearest to \<open>x\<close>: with \<open>2^e \<le> |x| < 2^(e+1)\<close>, the nearest multiple of \<open>2^(e-52)\<close>, a tie to
  the even significand. It is the result of a float multiplication or division whose exact
  value is \<open>x\<close>, and the value of a decimal literal \<open>x\<close>. The exponent range of doubles is not
  modelled: no overflow, and the same 53 bits below \<open>2^-1022\<close>, where every truncation by
  \<open>int\<close> is 0 either way. An integer operand of a float operation, a sample rate or a
  delay in milliseconds, enters with its exact value, as it does in Python below \<open>2^53\<close>. A
  double is a real that rounding leaves unchanged.
\<close>

definition rne :: "real \<Rightarrow> int" where
  "rne y =
     (let f = \<lfloor>y\<rfloor>
      in if y - of_int f < 1 / 2 then f
         else if 1 / 2 < y - of_int f then f + 1
         else if even f then f else f + 1)"

definition fl :: "real \<Rightarrow> real" where
  "fl x =
     (if x = 0 then 0
      else (let u = 2 powr (of_int \<lfloor>log 2 \<bar>x\<bar>\<rfloor> - 52)
            in of_int (rne (x / u)) * u))"

definition is_double :: "real \<Rightarrow> bool" where
  "is_double x \<longleftrightarrow> fl x = x"

subsection \<open>Ranges, subscripts and loops\<close>

text \<open>\<open>range(n)\<close> is empty for \<open>n \<le> 0\<close>.\<close>

definition py_range :: "int \<Rightarrow> nat list" where
  "py_range n = [0..<nat n]"

text \<open>
  List subscripts: an index \<open>i\<close> with \<open>-len \<le> i < len\<close> denotes a position (negative
  ones count from the end), every other index raises \<open>IndexError\<close>.
\<close>

definition py_idx :: "nat \<Rightarrow> int \<Rightarrow> error + nat" where
  "py_idx n i =
     (if 0 \<le> i \<and> i < int n then Inr (nat i)
      else if - int n \<le> i \<and> i < 0 then Inr (nat (int n + i))
      else Inl IndexError)"

text \<open>\<open>xs[i] += v\<close> and \<open>xs[i] *= k\<close>.\<close>

definition list_iadd :: "real list \<Rightarrow> int \<Rightarrow> real \<Rightarrow> error + real list" where
  "list_iadd xs i v =
     (case py_idx (length xs) i of
        Inl e \<Rightarrow> Inl e
      | Inr j \<Rightarrow> Inr (xs[j := xs ! j + v]))"

definition list_imul :: "real list \<Rightarrow> int \<Rightarrow> real \<Rightarrow> error + real list" where
  "list_imul xs i k =
     (case py_idx (length xs) i of
        Inl e \<Rightarrow> Inl e
      | Inr j \<Rightarrow> Inr (xs[j := xs ! j * k]))"

text \<open>
  A \<open>for\<close> loop over a list of values: the body transforms the loop state and may raise,
  which ends the loop with the exception.
\<close>

fun for_each :: "'a list \<Rightarrow> ('a \<Rightarrow> 's \<Rightarrow> error + 's) \<Rightarrow> 's \<Rightarrow> error + 's" where
  "for_each [] body s = Inr s"
| "for_each (x # xs) body s =
     (case body x s of Inl e \<Rightarrow> Inl e | Inr s' \<Rightarrow> for_each xs body s')"

subsection \<open>The pseudo-random generator\<close>

text \<open>
  \<open>random.Random(seed)\<close> is the standard library's generator, not code of the script.
  It is a parameter \<open>R\<close> of the model: \<open>R seed k\<close> is the value of the \<open>k\<close>-th call
  (counted from 0) of \<open>.random()\<close> on a generator created by \<open>random.Random(seed)\<close>.
  A generator object is then its seed together with the number of draws made so far.
\<close>

type_synonym rng = "int \<Rightarrow> nat \<Rightarrow> real"

datatype rnd = Rnd int nat

definition py_Random :: "int \<Rightarrow> rnd" where
  "py_Random seed = Rnd seed 0"

fun py_random :: "rng \<Rightarrow> rnd \<Rightarrow> real \<times> rnd" where
  "py_random R (Rnd seed k) = (R seed k, Rnd seed (Suc k))"

section \<open>Placeholder piano sample generation\<close>

text \<open>
  \<open>440.0 * (2 ** ((m - 69)/12))\<close>. Python raises \<open>OverflowError\<close> when the power leaves
  the range of doubles, from the pitch 12357 on; the model has no such bound, and a MIDI
  pitch is between 0 and 127.
\<close>

definition midi_to_freq :: "int \<Rightarrow> real" where
  "midi_to_freq m = 440 * 2 powr (real_of_int (m - 69) / 12)"

text \<open>
  The body of the synthesis loop of \<open>generate_placeholder_note\<close>, at index \<open>i\<close>. The loop
  state is \<open>(y, rnd)\<close>; the index comes from \<open>range(N)\<close> and \<open>y\<close> has \<open>N\<close> elements, so
  the subscript of \<open>y[i] = val * env\<close> is in range.
\<close>

definition note_step :: "rng \<Rightarrow> real \<Rightarrow> int \<Rightarrow> nat \<Rightarrow> real list \<times> rnd \<Rightarrow> error + real list \<times> rnd" where
  "note_step R f sr i = (\<lambda>(y, rnd).
     let t = real i / real_of_int sr;
         env = min 1 (t / 0.01) * exp (- t / 2);
         val = sin (2 * pi * f * t) * 0.55 +
               sin (2 * pi * 2 * f * t) * 0.22 +
               sin (2 * pi * 3.01 * f * t) * 0.12 +
               sin (2 * pi * 4.2 * f * t) * 0.08;
         (val, rnd) =
           (if int i < py_int (fl (fl 0.01 * real_of_int sr))
            then (let (u, rnd') = py_random R rnd
                  in (val + (u * 2 - 1) * 0.4 * (1 - real i / (0.01 * real_of_int sr)), rnd'))
            else (val, rnd))
     in Inr (y[i := val * env], rnd))"

text \<open>The body of the closing fade loop: \<open>y[-i-1] *= i/(sr*0.02)\<close>.\<close>

definition fade_step :: "int \<Rightarrow> nat \<Rightarrow> real list \<Rightarrow> error + real list" where
  "fade_step sr i y = list_imul y (- int i - 1) (real i / (real_of_int sr * 0.02))"

text \<open>
  The buffer after the synthesis loop, before the fade. The parameter \<open>length\<close> of the
  source is written \<open>len\<close>.
\<close>

definition note_body :: "rng \<Rightarrow> int \<Rightarrow> real \<Rightarrow> int \<Rightarrow> error + real list \<times> rnd" where
  "note_body R midi len sr =
     (let N = py_int (fl (real_of_int sr * len));
          f = midi_to_freq midi;
          y = replicate (nat N) 0;
          rnd = py_Random (2025 + midi)
      in for_each (py_range N) (note_step R f sr) (y, rnd))"

definition generate_placeholder_note :: "rng \<Rightarrow> int \<Rightarrow> real \<Rightarrow> int \<Rightarrow> error + real list" where
  "generate_placeholder_note R midi len sr =
     (case note_body R midi len sr of
        Inl e \<Rightarrow> Inl e
      | Inr (y, rnd) \<Rightarrow>
          for_each (py_range (py_int (fl (real_of_int sr * fl 0.02)))) (fade_step sr) y)"

text \<open>
  The placeholder branch of \<open>ensure_placeholder_or_convert\<close> calls the generator with
  \<open>length=min(4.5, length_sec)\<close> and the default sample rate.
\<close>

definition placeholder_for :: "rng \<Rightarrow> int \<Rightarrow> real \<Rightarrow> error + real list" where
  "placeholder_for R midi length_sec = generate_placeholder_note R midi (min 4.5 length_sec) 44100"

section \<open>Procedural impulse generation\<close>

text \<open>
  \<open>hash(name)\<close> on a string is the interpreter's string hash, not code of the script,
  and CPython salts it with a value chosen when the process starts: it is one function of
  the string inside a process, and another function in another process. It is the
  parameter \<open>H\<close> of the model.
\<close>

type_synonym py_hash = "string \<Rightarrow> int"

record preset =
  decay :: real
  seconds :: real
  hf_decay :: real
  early :: "(int \<times> real) list"

definition presets :: "(string \<times> preset) list" where
  "presets =
     [(''studio'', \<lparr>decay = 0.9, seconds = 0.9, hf_decay = 0.7,
         early = [(6, 0.6), (11, 0.4)]\<rparr>),
      (''medium-room'', \<lparr>decay = 1.2, seconds = 1.5, hf_decay = 0.6,
         early = [(7, 0.7), (13, 0.5), (23, 0.35)]\<rparr>),
      (''hall'', \<lparr>decay = 1.8, seconds = 2.6, hf_decay = 0.55,
         early = [(9, 0.8), (17, 0.6), (31, 0.45), (47, 0.3)]\<rparr>),
      (''cathedral'', \<lparr>decay = 2.5, seconds = 4.2, hf_decay = 0.5,
         early = [(12, 0.9), (23, 0.7), (41, 0.55), (73, 0.35), (97, 0.25)]\<rparr>),
      (''plate'', \<lparr>decay = 1.6, seconds = 1.8, hf_decay = 0.75,
         early = [(5, 0.95), (11, 0.75), (19, 0.55), (29, 0.35)]\<rparr>)]"

text \<open>
  The body of the early-reflection loop, for one \<open>(delay_ms, level)\<close> pair:
  \<open>off = int(sr * (delay_ms/1000.0))\<close>, and when \<open>off < N\<close> the two updates
  \<open>nl[off] += level\<close> and \<open>nr[max(0, off-1)] += level*0.98\<close>.
\<close>

definition early_step ::
  "int \<Rightarrow> int \<Rightarrow> int \<times> real \<Rightarrow> real list \<times> real list \<Rightarrow> error + real list \<times> real list" where
  "early_step sr N = (\<lambda>(delay_ms, level) (nl, nr).
     let off = py_int (fl (real_of_int sr * fl (real_of_int delay_ms / 1000.0)))
     in if off < N
        then (case list_iadd nl off level of
                Inl e \<Rightarrow> Inl e
              | Inr nl' \<Rightarrow>
                  (case list_iadd nr (max 0 (off - 1)) (level * 0.98) of
                     Inl e \<Rightarrow> Inl e
                   | Inr nr' \<Rightarrow> Inr (nl', nr')))
        else Inr (nl, nr))"

text \<open>The early-reflection loop over the preset's list.\<close>

definition early_reflections ::
  "int \<Rightarrow> int \<Rightarrow> (int \<times> real) list \<Rightarrow> real list \<times> real list \<Rightarrow> error + real list \<times> real list" where
  "early_reflections sr N es bufs = for_each es (early_step sr N) bufs"

text \<open>
  The body of the late-tail loop. The loop state is \<open>(valL, valR, rnd, nl, nr)\<close>; the
  index \<open>i\<close> comes from \<open>range(N)\<close> and both lists have \<open>N\<close> elements, so the two
  subscripts are in range.
\<close>

definition tail_step ::
  "rng \<Rightarrow> preset \<Rightarrow> int \<Rightarrow> int \<Rightarrow> nat \<Rightarrow>
   real \<times> real \<times> rnd \<times> real list \<times> real list \<Rightarrow>
   error + real \<times> real \<times> rnd \<times> real list \<times> real list" where
  "tail_step R p sr N i = (\<lambda>(valL, valR, rnd, nl, nr).
     let env_decay = decay p;
         hf = hf_decay p;
         (u, rnd) = py_random R rnd;
         n = u * 2 - 1;
         valL = (valL + 0.05 * n) / 1.05;
         (u', rnd) = py_random R rnd;
         valR = (valR + 0.05 * (u' * 2 - 1)) / 1.05;
         e = exp (- real i / (env_decay * real_of_int sr));
         hf_env = 1 - hf * (real i / real_of_int N)
     in Inr (valL, valR, rnd,
             nl[i := nl ! i + valL * e * hf_env * 0.6],
             nr[i := nr ! i + valR * e * hf_env * 0.6]))"

text \<open>The body of the fade loop: both ends of both channels are scaled by \<open>k\<close>.\<close>

definition ir_fade_step ::
  "int \<Rightarrow> nat \<Rightarrow> real list \<times> real list \<Rightarrow> error + real list \<times> real list" where
  "ir_fade_step sr i = (\<lambda>(nl, nr).
     let k = real i / (real_of_int sr * 0.01)
     in case list_imul nl (int i) k of
          Inl e \<Rightarrow> Inl e
        | Inr nl \<Rightarrow>
            (case list_imul nr (int i) k of
               Inl e \<Rightarrow> Inl e
             | Inr nr \<Rightarrow>
                 (case list_imul nl (- int i - 1) k of
                    Inl e \<Rightarrow> Inl e
                  | Inr nl \<Rightarrow>
                      (case list_imul nr (- int i - 1) k of
                         Inl e \<Rightarrow> Inl e
                       | Inr nr \<Rightarrow> Inr (nl, nr)))))"

definition generate_ir ::
  "py_hash \<Rightarrow> rng \<Rightarrow> string \<Rightarrow> int \<Rightarrow> error + real list \<times> real list" where
  "generate_ir H R name sr =
     (case map_of presets ''medium-room'' of
        None \<Rightarrow> Inl KeyError
      | Some dflt \<Rightarrow>
          (let p = (case map_of presets name of Some q \<Rightarrow> q | None \<Rightarrow> dflt);
               N = py_int (fl (real_of_int sr * fl (seconds p)));
               nl = replicate (nat N) 0;
               nr = replicate (nat N) 0
           in case early_reflections sr N (early p) (nl, nr) of
                Inl e \<Rightarrow> Inl e
              | Inr (nl, nr) \<Rightarrow>
                  (case for_each (py_range N) (tail_step R p sr N)
                          (0, 0, py_Random (1337 + H name), nl, nr) of
                     Inl e \<Rightarrow> Inl e
                   | Inr (valL, valR, rnd, nl, nr) \<Rightarrow>
                       for_each (py_range (py_int (fl (real_of_int sr * fl 0.01))))
                         (ir_fade_step sr) (nl, nr))))"

section \<open>PCM encoding\<close>

text \<open>
  The destination path and the file system are not part of the model: a writer returns the
  content of the file it writes, the header parameters set on the \<open>wave\<close> writer and the
  frame bytes passed to \<open>writeframes\<close>. \<open>setframerate\<close> raises \<open>wave.Error\<close> for a
  rate that is not positive, and the header is packed with unsigned 32-bit fields for the
  chunk size \<open>36 + data length\<close>, the frame rate and the byte rate
  \<open>nchannels * framerate * sampwidth\<close>, which raises \<open>struct.error\<close> when one of them
  does not fit. When the loop of a writer raises, the \<open>with\<close> statement closes the writer on
  the way out, which packs the header of a file without data: a \<open>struct.error\<close> raised
  there replaces the exception of the loop.
\<close>

record wav =
  nchannels :: int
  sampwidth :: int
  framerate :: int
  framedata :: "8 word list"

definition wave_header_ok :: "int \<Rightarrow> int \<Rightarrow> nat \<Rightarrow> bool" where
  "wave_header_ok nch sr nbytes \<longleftrightarrow>
     36 + int nbytes < 2 ^ 32 \<and> sr < 2 ^ 32 \<and> nch * sr * 2 < 2 ^ 32"

text \<open>
  The expression \<open>int(max(-1, min(1, x)) * 32767)\<close> of both writers; the product is a float
  product.
\<close>

definition pcm16 :: "real \<Rightarrow> int" where
  "pcm16 x = py_int (fl (max (- 1) (min 1 x) * 32767))"

text \<open>
  \<open>struct.pack('<h', v)\<close>: the two bytes of the 16-bit two's complement of \<open>v\<close>, low byte
  first; \<open>struct.error\<close> when \<open>v\<close> is not a signed 16-bit value. \<open>struct.pack('<hh', L, R)\<close>
  packs both values.
\<close>

definition pack_h :: "int \<Rightarrow> error + 8 word list" where
  "pack_h v =
     (if - 32768 \<le> v \<and> v \<le> 32767
      then Inr [word_of_int v, word_of_int (v div 256)]
      else Inl StructError)"

definition pack_hh :: "int \<Rightarrow> int \<Rightarrow> error + 8 word list" where
  "pack_hh L R =
     (case pack_h L of
        Inl e \<Rightarrow> Inl e
      | Inr a \<Rightarrow> (case pack_h R of Inl e \<Rightarrow> Inl e | Inr b \<Rightarrow> Inr (a @ b)))"

definition stereo_step :: "real list \<Rightarrow> real list \<Rightarrow> nat \<Rightarrow> 8 word list \<Rightarrow> error + 8 word list" where
  "stereo_step dataL dataR i frames =
     (let L = pcm16 (dataL ! i)
      in if i < length dataR
         then (let R = pcm16 (dataR ! i)
               in case pack_hh L R of Inl e \<Rightarrow> Inl e | Inr b \<Rightarrow> Inr (frames @ b))
         else Inl IndexError)"

definition write_wav_stereo :: "real list \<Rightarrow> real list \<Rightarrow> int \<Rightarrow> error + wav" where
  "write_wav_stereo dataL dataR sr =
     (if sr \<le> 0 then Inl WaveError
      else case for_each (py_range (int (length dataL))) (stereo_step dataL dataR) [] of
             Inl e \<Rightarrow> if wave_header_ok 2 sr 0 then Inl e else Inl StructError
           | Inr frames \<Rightarrow>
               if wave_header_ok 2 sr (length frames)
               then Inr \<lparr>nchannels = 2, sampwidth = 2, framerate = sr, framedata = frames\<rparr>
               else Inl StructError)"

definition mono_step :: "real list \<Rightarrow> nat \<Rightarrow> 8 word list \<Rightarrow> error + 8 word list" where
  "mono_step data i frames =
     (let s = pcm16 (data ! i)
      in case pack_h s of Inl e \<Rightarrow> Inl e | Inr b \<Rightarrow> Inr (frames @ b))"

definition write_wav_mono :: "real list \<Rightarrow> int \<Rightarrow> error + wav" where
  "write_wav_mono data sr =
     (if sr \<le> 0 then Inl WaveError
      else case for_each (py_range (int (length data))) (mono_step data) [] of
             Inl e \<Rightarrow> if wave_header_ok 1 sr 0 then Inl e else Inl StructError
           | Inr frames \<Rightarrow>
               if wave_header_ok 1 sr (length frames)
               then Inr \<lparr>nchannels = 1, sampwidth = 2, framerate = sr, framedata = frames\<rparr>
               else Inl StructError)"

section \<open>Auxiliary definitions for the proofs\<close>

text \<open>
  The value the synthesis loop of \<open>generate_placeholder_note\<close> stores at index \<open>i\<close>, and
  the invariants of its two loops.
\<close>

definition note_value :: "rng \<Rightarrow> real \<Rightarrow> int \<Rightarrow> int \<Rightarrow> nat \<Rightarrow> real" where
  "note_value R f sr seed i =
     (let t = real i / real_of_int sr
      in (sin (2 * pi * f * t) * 0.55 + sin (2 * pi * 2 * f * t) * 0.22 +
          sin (2 * pi * 3.01 * f * t) * 0.12 + sin (2 * pi * 4.2 * f * t) * 0.08 +
          (if int i < py_int (fl (fl 0.01 * real_of_int sr))
           then (R seed i * 2 - 1) * 0.4 * (1 - real i / (0.01 * real_of_int sr)) else 0)) *
         (min 1 (t / 0.01) * exp (- t / 2)))"

definition note_inv :: "rng \<Rightarrow> real \<Rightarrow> int \<Rightarrow> int \<Rightarrow> nat \<Rightarrow> nat \<Rightarrow> real list \<times> rnd \<Rightarrow> bool" where
  "note_inv R f sr seed n k = (\<lambda>(y, rnd). length y = n \<and>
     rnd = Rnd seed (min k (nat (py_int (fl (fl 0.01 * real_of_int sr))))) \<and>
     (\<forall>i<k. y ! i = note_value R f sr seed i))"

definition fade_inv :: "int \<Rightarrow> real list \<Rightarrow> nat \<Rightarrow> real list \<Rightarrow> bool" where
  "fade_inv sr y0 k y \<longleftrightarrow> length y = length y0 \<and>
     (\<forall>j<length y0. y ! j = (if length y0 - k \<le> j then y0 ! j * (real (length y0 - 1 - j) / (real_of_int sr * 0.02)) else y0 ! j))"

text \<open>
  For the impulse responses: the sample offset of a reflection, the sums of the levels
  the early-reflection loop adds at an index, the one-pole noise recurrences of the two
  channels, the gain of the tail at an index, the factor the fade applies, and the
  invariants of the loops.
\<close>

definition refl_off :: "int \<Rightarrow> int \<Rightarrow> int" where
  "refl_off sr delay_ms = py_int (fl (real_of_int sr * fl (real_of_int delay_ms / 1000.0)))"

definition left_sum :: "int \<Rightarrow> int \<Rightarrow> (int \<times> real) list \<Rightarrow> nat \<Rightarrow> real" where
  "left_sum sr N es k =
     sum_list (map (\<lambda>(d, l). if refl_off sr d < N \<and> refl_off sr d = int k then l else 0) es)"

definition right_sum :: "int \<Rightarrow> int \<Rightarrow> (int \<times> real) list \<Rightarrow> nat \<Rightarrow> real" where
  "right_sum sr N es k =
     sum_list (map (\<lambda>(d, l). if refl_off sr d < N \<and> max 0 (refl_off sr d - 1) = int k
                              then l * 0.98 else 0) es)"

fun tailL :: "rng \<Rightarrow> int \<Rightarrow> nat \<Rightarrow> real" where
  "tailL R seed 0 = 0"
| "tailL R seed (Suc i) = (tailL R seed i + 0.05 * (R seed (2 * i) * 2 - 1)) / 1.05"

fun tailR :: "rng \<Rightarrow> int \<Rightarrow> nat \<Rightarrow> real" where
  "tailR R seed 0 = 0"
| "tailR R seed (Suc i) = (tailR R seed i + 0.05 * (R seed (2 * i + 1) * 2 - 1)) / 1.05"

definition tail_gain :: "preset \<Rightarrow> int \<Rightarrow> int \<Rightarrow> nat \<Rightarrow> real" where
  "tail_gain p sr N i =
     exp (- real i / (decay p * real_of_int sr)) * (1 - hf_decay p * (real i / real_of_int N)) * 0.6"

definition tail_inv ::
  "rng \<Rightarrow> preset \<Rightarrow> int \<Rightarrow> int \<Rightarrow> int \<Rightarrow> real list \<Rightarrow> real list \<Rightarrow> nat \<Rightarrow>
   real \<times> real \<times> rnd \<times> real list \<times> real list \<Rightarrow> bool" where
  "tail_inv R p sr N seed nl0 nr0 k = (\<lambda>(valL, valR, rnd, nl, nr).
     valL = tailL R seed k \<and> valR = tailR R seed k \<and> rnd = Rnd seed (2 * k) \<and>
     length nl = length nl0 \<and> length nr = length nr0 \<and>
     (\<forall>j<length nl0. nl ! j = nl0 ! j + (if j < k then tailL R seed (Suc j) * tail_gain p sr N j else 0)) \<and>
     (\<forall>j<length nr0. nr ! j = nr0 ! j + (if j < k then tailR R seed (Suc j) * tail_gain p sr N j else 0)))"

definition ir_fade_fac :: "int \<Rightarrow> nat \<Rightarrow> nat \<Rightarrow> nat \<Rightarrow> real" where
  "ir_fade_fac sr n k j =
     (if j < k then real j / (real_of_int sr * 0.01) else 1) *
     (if n - k \<le> j then real (n - 1 - j) / (real_of_int sr * 0.01) else 1)"

definition ir_fade_inv :: "int \<Rightarrow> real list \<Rightarrow> real list \<Rightarrow> nat \<Rightarrow> real list \<times> real list \<Rightarrow> bool" where
  "ir_fade_inv sr nl0 nr0 k = (\<lambda>(nl, nr).
     length nl = length nl0 \<and> length nr = length nr0 \<and>
     (\<forall>j<length nl0. nl ! j = nl0 ! j * ir_fade_fac sr (length nl0) k j) \<and>
     (\<forall>j<length nr0. nr ! j = nr0 ! j * ir_fade_fac sr (length nr0) k j))"

text \<open>The sample a result holds at an index of its left or right buffer, if any.\<close>

definition left_sample :: "error + real list \<times> real list \<Rightarrow> nat \<Rightarrow> real option" where
  "left_sample r k =
     (case r of Inl e \<Rightarrow> None | Inr (nl, nr) \<Rightarrow> if k < length nl then Some (nl ! k) else None)"

definition right_sample :: "error + real list \<times> real list \<Rightarrow> nat \<Rightarrow> real option" where
  "right_sample r k =
     (case r of Inl e \<Rightarrow> None | Inr (nl, nr) \<Rightarrow> if k < length nr then Some (nr ! k) else None)"

text \<open>
  The preset an argument \<open>name\<close> selects, with the default of \<open>presets.get\<close>, and the body
  of \<open>generate_ir\<close> after the lookup, as a function of the preset and the seed.
\<close>

definition medium_room :: preset where
  "medium_room = \<lparr>decay = 1.2, seconds = 1.5, hf_decay = 0.6,
         early = [(7, 0.7), (13, 0.5), (23, 0.35)]\<rparr>"

definition resolve :: "string \<Rightarrow> preset" where
  "resolve name = (case map_of presets name of Some q \<Rightarrow> q | None \<Rightarrow> medium_room)"

definition ir_render :: "rng \<Rightarrow> preset \<Rightarrow> int \<Rightarrow> int \<Rightarrow> error + real list \<times> real list" where
  "ir_render R p seed sr =
     (let N = py_int (fl (real_of_int sr * fl (seconds p)));
          nl = replicate (nat N) 0;
          nr = replicate (nat N) 0
      in case early_reflections sr N (early p) (nl, nr) of
           Inl e \<Rightarrow> Inl e
         | Inr (nl, nr) \<Rightarrow>
             (case for_each (py_range N) (tail_step R p sr N) (0, 0, py_Random seed, nl, nr) of
                Inl e \<Rightarrow> Inl e
              | Inr (valL, valR, rnd, nl, nr) \<Rightarrow>
                  for_each (py_range (py_int (fl (real_of_int sr * fl 0.01)))) (ir_fade_step sr)
                    (nl, nr)))"

text \<open>
  The note formula in the words of the specification: envelope, additive tone and
  hammer noise, as functions of the time \<open>t = i / 44100\<close>.
\<close>

definition spec_envelope :: "real \<Rightarrow> real" where
  "spec_envelope t = min 1 (t / 0.01) * exp (- t / 2.0)"

definition spec_tone :: "real \<Rightarrow> real \<Rightarrow> real" where
  "spec_tone f t =
     0.55 * sin (2 * pi * (1.0 * f) * t) + 0.22 * sin (2 * pi * (2.0 * f) * t) +
     0.12 * sin (2 * pi * (3.01 * f) * t) + 0.08 * sin (2 * pi * (4.2 * f) * t)"

definition spec_noise :: "rng \<Rightarrow> int \<Rightarrow> nat \<Rightarrow> real \<Rightarrow> real" where
  "spec_noise R pitch i t =
     (if t < 0.01 then 0.4 * (R (2025 + pitch) i * 2 - 1) * (1 - t / 0.01) else 0)"

text \<open>
  The encoder in the words of the specification: clamp to \<open>[-1, 1]\<close>, multiply by 32767,
  a float multiplication, and truncate towards zero, the two bytes of a signed 16-bit value, low byte first, and
  the frame bytes of a mono and of an interleaved stereo file. \<open>unpack_h\<close> reads frame
  bytes back as signed 16-bit values.
\<close>

definition spec_clamp :: "real \<Rightarrow> real" where
  "spec_clamp x = (if x < - 1 then - 1 else if 1 < x then 1 else x)"

definition spec_trunc :: "real \<Rightarrow> int" where
  "spec_trunc y = (if 0 \<le> y then \<lfloor>y\<rfloor> else - \<lfloor>- y\<rfloor>)"

definition spec_sample :: "real \<Rightarrow> int" where
  "spec_sample x = spec_trunc (fl (spec_clamp x * 32767))"

definition spec_le16 :: "int \<Rightarrow> 8 word list" where
  "spec_le16 v = [word_of_int (v mod 65536 mod 256), word_of_int (v mod 65536 div 256)]"

definition spec_mono_frames :: "real list \<Rightarrow> 8 word list" where
  "spec_mono_frames data = concat (map (\<lambda>x. spec_le16 (spec_sample x)) data)"

definition spec_stereo_frames :: "real list \<Rightarrow> real list \<Rightarrow> 8 word list" where
  "spec_stereo_frames dataL dataR =
     concat (map (\<lambda>(l, r). spec_le16 (spec_sample l) @ spec_le16 (spec_sample r)) (zip dataL dataR))"

fun unpack_h :: "8 word list \<Rightarrow> int list" where
  "unpack_h (lo # hi # bs) =
     (let u = uint lo + 256 * uint hi in if u < 32768 then u else u - 65536) # unpack_h bs"
| "unpack_h bs = []"

text \<open>
  A concrete generator, used where a closed instance of a statement needs one. It is not
  Python's Mersenne Twister; any function of the seed and the draw number is an instance
  of the parameter \<open>R\<close>.
\<close>

definition demo_rng :: rng where
  "demo_rng seed k = real_of_int ((seed * 7 + int k * 3) mod 16) / 16"

text \<open>
  Two concrete string hashes, standing for the hash functions of two interpreter
  processes: they agree on every string but \<open>hall\<close>.
\<close>

definition demo_hash :: py_hash where
  "demo_hash s = int (length s)"

definition demo_hash_other :: py_hash where
  "demo_hash_other s = (if s = ''hall'' then 5 else int (length s))"

section \<open>Loop rules\<close>

lemma for_each_append:
  "for_each (xs @ ys) body s =
     (case for_each xs body s of Inl e \<Rightarrow> Inl e | Inr s' \<Rightarrow> for_each ys body s')"
  by (induction xs arbitrary: s) (auto split: sum.splits)

lemma for_each_upt_inv:
  assumes "I a s"
    and "\<And>i s. a \<le> i \<Longrightarrow> i < b \<Longrightarrow> I i s \<Longrightarrow> \<exists>s'. body i s = Inr s' \<and> I (Suc i) s'"
    and "a \<le> b"
  shows "\<exists>s'. for_each [a..<b] body s = Inr s' \<and> I b s'"
  using assms
proof (induction "b - a" arbitrary: a s)
  case 0
  then show ?case by simp
next
  case (Suc n)
  then have ab: "a < b" by simp
  from Suc.prems(2)[of a s] Suc.prems(1) ab obtain s1
    where s1: "body a s = Inr s1" "I (Suc a) s1" by auto
  have "\<exists>s'. for_each [Suc a..<b] body s1 = Inr s' \<and> I b s'"
  proof (rule Suc.hyps(1))
    show "n = b - Suc a" using Suc.hyps(2) by simp
    show "I (Suc a) s1" by (rule s1)
    show "Suc a \<le> b" using ab by simp
    show "\<And>i s. Suc a \<le> i \<Longrightarrow> i < b \<Longrightarrow> I i s \<Longrightarrow> \<exists>s'. body i s = Inr s' \<and> I (Suc i) s'"
      using Suc.prems(2) by simp
  qed
  then show ?case using s1 ab by (simp add: upt_conv_Cons)
qed

section \<open>Rounding to double: bounds and evaluation\<close>

lemma rne_of_int [simp]: "rne (of_int k) = k"
  by (simp add: rne_def)

lemma rne_ge_floor: "\<lfloor>y\<rfloor> \<le> rne y"
  by (simp add: rne_def Let_def)

lemma rne_le_ceiling: "rne y \<le> \<lceil>y\<rceil>"
proof -
  have "y - of_int \<lfloor>y\<rfloor> < 1 / 2 \<or> \<lfloor>y\<rfloor> + 1 \<le> \<lceil>y\<rceil>"
    by (metis add.commute ceiling_altdef diff_self floor_le_ceiling le_less not_less zero_less_divide_1_iff zero_less_numeral zle_add1_eq_le)
  moreover have "\<lfloor>y\<rfloor> \<le> \<lceil>y\<rceil>" by (rule floor_le_ceiling)
  ultimately show ?thesis by (auto simp: rne_def Let_def)
qed

lemma rne_le_int: "y \<le> of_int m \<Longrightarrow> rne y \<le> m"
  using rne_le_ceiling[of y] by (meson ceiling_le order_trans)

lemma rne_ge_int: "of_int m \<le> y \<Longrightarrow> m \<le> rne y"
  using rne_ge_floor[of y] by (meson le_floor_iff order_trans)

lemma rne_minus: "rne (- y) = - rne y"
proof (cases "y \<in> \<int>")
  case True
  then obtain k where "y = of_int k" by (auto elim: Ints_cases)
  then show ?thesis by (metis of_int_minus rne_of_int)
next
  case False
  have ne: "y \<noteq> of_int \<lfloor>y\<rfloor>"
  proof
    assume "y = of_int \<lfloor>y\<rfloor>"
    then have "y \<in> \<int>" by (metis Ints_of_int)
    with False show False by simp
  qed
  then have f: "\<lfloor>- y\<rfloor> = - \<lfloor>y\<rfloor> - 1"
    by (simp add: floor_minus ceiling_altdef)
  have fr: "0 < y - of_int \<lfloor>y\<rfloor>" "y - of_int \<lfloor>y\<rfloor> < 1"
    using ne of_int_floor_le[of y] by linarith+
  show ?thesis
    unfolding rne_def Let_def f using fr
    by (auto simp: algebra_simps)
qed

lemma expo_bounds:
  assumes "x \<noteq> 0"
  shows "2 powr of_int \<lfloor>log 2 \<bar>x\<bar>\<rfloor> \<le> \<bar>x\<bar>" "\<bar>x\<bar> < 2 powr (of_int \<lfloor>log 2 \<bar>x\<bar>\<rfloor> + 1)"
  using floor_log_eq_powr_iff[of "\<bar>x\<bar>" 2 "\<lfloor>log 2 \<bar>x\<bar>\<rfloor>"] assms by simp_all

lemma expo_eq:
  assumes "2 powr of_int e \<le> \<bar>x\<bar>" "\<bar>x\<bar> < 2 powr (of_int e + 1)"
  shows "\<lfloor>log 2 \<bar>x\<bar>\<rfloor> = e"
proof -
  have "0 < \<bar>x\<bar>" using assms(1) by (smt (verit) powr_gt_zero)
  then show ?thesis using floor_log_eq_powr_iff[of "\<bar>x\<bar>" 2 e] assms by simp
qed

lemma fl_eval:
  assumes "2 powr of_int e \<le> \<bar>x\<bar>" "\<bar>x\<bar> < 2 powr (of_int e + 1)"
  shows "fl x = of_int (rne (x / 2 powr (of_int e - 52))) * 2 powr (of_int e - 52)"
proof -
  have "x \<noteq> 0" using assms(1) by (smt (verit) powr_gt_zero)
  then show ?thesis by (simp add: fl_def expo_eq[OF assms] Let_def)
qed

lemma fl_zero [simp]: "fl 0 = 0"
  by (simp add: fl_def)

lemma fl_minus: "fl (- x) = - fl x"
  by (simp add: fl_def rne_minus Let_def)

lemma fl_nonneg: "0 \<le> x \<Longrightarrow> 0 \<le> fl x"
proof -
  assume x: "0 \<le> x"
  have "0 \<le> rne (x / u)" if "0 < u" for u :: real
    using rne_ge_int[of 0 "x / u"] x that by simp
  then show ?thesis by (simp add: fl_def Let_def)
qed

lemma fl_nonpos: "x \<le> 0 \<Longrightarrow> fl x \<le> 0"
  using fl_nonneg[of "- x"] by (simp add: fl_minus)

lemma fl_upper:
  assumes "0 < x" "x \<le> B" "fl B = B"
  shows "fl x \<le> B"
proof -
  define e where "e = \<lfloor>log 2 \<bar>x\<bar>\<rfloor>"
  define eB where "eB = \<lfloor>log 2 \<bar>B\<bar>\<rfloor>"
  define u where "u = (2::real) powr (of_int e - 52)"
  define uB where "uB = (2::real) powr (of_int eB - 52)"
  have B0: "0 < B" using assms by simp
  have le: "e \<le> eB"
    unfolding e_def eB_def using assms B0 by (intro floor_mono) simp
  have u0: "0 < u" by (simp add: u_def)
  have Bk: "B = of_int (rne (B / uB)) * uB"
    using assms(3) B0 by (simp add: fl_def uB_def eB_def Let_def)
  have "uB = u * 2 powr of_int (eB - e)"
    by (simp add: u_def uB_def powr_add[symmetric])
  also have "(2::real) powr of_int (eB - e) = 2 ^ nat (eB - e)"
    using le powr_real_of_int[of 2 "eB - e"] by simp
  finally have uBu: "uB = u * 2 ^ nat (eB - e)" .
  have "B / u = of_int (rne (B / uB) * 2 ^ nat (eB - e))"
    using u0 by (subst Bk) (simp add: uBu)
  moreover have "x / u \<le> B / u" using assms(2) u0 by (simp add: divide_right_mono)
  ultimately have "rne (x / u) \<le> rne (B / uB) * 2 ^ nat (eB - e)"
    by (intro rne_le_int) simp
  then have "of_int (rne (x / u)) * u \<le> of_int (rne (B / uB) * 2 ^ nat (eB - e)) * u"
    using u0 by (intro mult_right_mono) (simp_all only: of_int_le_iff less_imp_le)
  also have "\<dots> = B" by (subst (2) Bk) (simp add: uBu)
  finally show ?thesis using assms(1) by (simp add: fl_def u_def e_def Let_def)
qed

lemma fl_lower:
  assumes "0 < A" "A \<le> x" "fl A = A"
  shows "A \<le> fl x"
proof -
  define e where "e = \<lfloor>log 2 \<bar>x\<bar>\<rfloor>"
  define eA where "eA = \<lfloor>log 2 \<bar>A\<bar>\<rfloor>"
  define u where "u = (2::real) powr (of_int e - 52)"
  have x0: "0 < x" using assms by simp
  have le: "eA \<le> e"
    unfolding e_def eA_def using assms x0 by (intro floor_mono) simp
  have u0: "0 < u" by (simp add: u_def)
  have flx: "fl x = of_int (rne (x / u)) * u"
    using x0 by (simp add: fl_def u_def e_def Let_def)
  show ?thesis
  proof (cases "eA = e")
    case True
    have Ak: "A = of_int (rne (A / u)) * u"
      using assms(3,1) by (simp add: fl_def u_def True[symmetric] eA_def Let_def)
    have "A / u = of_int (rne (A / u))" using u0 by (subst (1) Ak) simp
    moreover have "A / u \<le> x / u" using assms(2) u0 by (simp add: divide_right_mono)
    ultimately have "rne (A / u) \<le> rne (x / u)"
      by (intro rne_ge_int) simp
    then have "of_int (rne (A / u)) * u \<le> of_int (rne (x / u)) * u"
      using u0 by (intro mult_right_mono) simp_all
    then show ?thesis using Ak flx by simp
  next
    case False
    then have lt: "eA + 1 \<le> e" using le by simp
    have "A < 2 powr (of_int eA + 1)"
      using expo_bounds(2)[of A] assms(1) by (simp add: eA_def)
    also have "\<dots> \<le> 2 powr of_int e"
    proof (rule powr_mono)
      show "real_of_int eA + 1 \<le> real_of_int e" using lt by linarith
    qed simp
    finally have Ae: "A < 2 powr of_int e" .
    have xe: "2 powr of_int e \<le> x"
      using expo_bounds(1)[of x] x0 by (simp add: e_def)
    have "2 powr of_int e / u = 2 ^ 52"
      by (simp add: u_def powr_diff powr_realpow[of 2 52, simplified])
    then have "of_int (2 ^ 52) \<le> x / u"
      using xe u0 by (metis divide_right_mono less_imp_le of_int_numeral of_int_power)
    then have "2 ^ 52 \<le> rne (x / u)" by (rule rne_ge_int)
    then have "of_int (2 ^ 52) * u \<le> of_int (rne (x / u)) * u"
      using u0 by (intro mult_right_mono) simp_all
    moreover have "of_int (2 ^ 52) * u = 2 powr of_int e"
      by (simp add: u_def powr_diff powr_realpow[of 2 52, simplified])
    ultimately show ?thesis using Ae flx by simp
  qed
qed

lemma fl_eval_ge1:
  assumes "2 ^ n \<le> \<bar>x\<bar>" "\<bar>x\<bar> < 2 ^ Suc n" "n \<le> 52"
  shows "fl x = of_int (rne (x * 2 ^ (52 - n))) / 2 ^ (52 - n)"
proof -
  have p: "(2::real) powr of_int (int n) = 2 ^ n" "(2::real) powr (of_int (int n) + 1) = 2 ^ Suc n"
    using powr_realpow[of 2 n] powr_realpow[of 2 "Suc n"] by (simp_all add: add.commute)
  have u: "(2::real) powr (of_int (int n) - 52) = 1 / 2 ^ (52 - n)"
    using powr_real_of_int[of 2 "int n - 52"] assms(3)
    by (simp add: inverse_eq_divide nat_diff_distrib')
  have "fl x = of_int (rne (x / 2 powr (of_int (int n) - 52))) * 2 powr (of_int (int n) - 52)"
    by (rule fl_eval) (use assms p in simp_all)
  then show ?thesis unfolding u by simp
qed

lemma powr_neg_nat: "(2::real) powr (- real k) = 1 / 2 ^ k"
  by (simp add: powr_minus_divide powr_realpow)

lemma fl_eval_lt1:
  assumes "1 / 2 ^ Suc n \<le> \<bar>x\<bar>" "\<bar>x\<bar> < 1 / 2 ^ n"
  shows "fl x = of_int (rne (x * 2 ^ (n + 53))) / 2 ^ (n + 53)"
proof -
  have e1: "of_int (- int (Suc n)) = - real (Suc n)" by simp
  have e2: "of_int (- int (Suc n)) + 1 = - real n" by simp
  have e3: "of_int (- int (Suc n)) - 52 = - real (n + 53)" by simp
  have "fl x = of_int (rne (x / 2 powr (of_int (- int (Suc n)) - 52))) *
                 2 powr (of_int (- int (Suc n)) - 52)"
  proof (rule fl_eval)
    show "2 powr of_int (- int (Suc n)) \<le> \<bar>x\<bar>"
      unfolding e1 powr_neg_nat by (rule assms(1))
    show "\<bar>x\<bar> < 2 powr (of_int (- int (Suc n)) + 1)"
      unfolding e2 powr_neg_nat by (rule assms(2))
  qed
  then show ?thesis unfolding e3 powr_neg_nat by simp
qed

lemma rne_numeral [simp]: "rne (numeral k) = numeral k"
  using rne_of_int[of "numeral k"] by simp

lemma fl_numeral_small:
  "fl 882 = 882" "fl 128 = 128" "fl 32767 = 32767" "fl 198450 = 198450"
  using fl_eval_ge1[of 9 882] fl_eval_ge1[of 7 128] fl_eval_ge1[of 14 32767]
    fl_eval_ge1[of 17 198450]
  by simp_all

lemma fl_hundredth: "fl 0.01 = 5764607523034235 / 2 ^ 59"
  using fl_eval_lt1[of 6 "0.01"] by (simp add: rne_def)

lemma fl_fiftieth: "fl 0.02 = 5764607523034235 / 2 ^ 58"
  using fl_eval_lt1[of 5 "0.02"] by (simp add: rne_def)

lemma cnt_window: "py_int (fl (fl 0.01 * real_of_int 44100)) = 441"
proof -
  have "fl (5764607523034235 / 2 ^ 59 * 44100) = 441"
    using fl_eval_ge1[of 8 "5764607523034235 / 2 ^ 59 * 44100"] by (simp add: rne_def)
  then show ?thesis unfolding fl_hundredth by (simp add: py_int_def)
qed

lemma cnt_fade_ir: "py_int (fl (real_of_int 44100 * fl 0.01)) = 441"
proof -
  have "fl (44100 * (5764607523034235 / 2 ^ 59)) = 441"
    using fl_eval_ge1[of 8 "44100 * (5764607523034235 / 2 ^ 59)"] by (simp add: rne_def)
  then show ?thesis unfolding fl_hundredth by (simp add: py_int_def)
qed

lemma cnt_fade_note: "py_int (fl (real_of_int 44100 * fl 0.02)) = 882"
proof -
  have "fl (44100 * (5764607523034235 / 2 ^ 58)) = 882"
    using fl_eval_ge1[of 9 "44100 * (5764607523034235 / 2 ^ 58)"] by (simp add: rne_def)
  then show ?thesis unfolding fl_fiftieth by (simp add: py_int_def)
qed

section \<open>The closing fade of a note\<close>

lemma py_idx_neg: "i < n \<Longrightarrow> py_idx n (- int i - 1) = Inr (n - 1 - i)"
  by (auto simp: py_idx_def nat_diff_distrib)

lemma py_idx_neg_out: "n \<le> i \<Longrightarrow> py_idx n (- int i - 1) = Inl IndexError"
  by (auto simp: py_idx_def)

lemma py_idx_nonneg: "i < n \<Longrightarrow> py_idx n (int i) = Inr i"
  by (auto simp: py_idx_def)

lemma fade_step_ok:
  "i < length y \<Longrightarrow> fade_step sr i y = Inr (y[length y - 1 - i := y ! (length y - 1 - i) * (real i / (real_of_int sr * 0.02))])"
  by (simp add: fade_step_def list_imul_def py_idx_neg)

lemma fade_step_err: "length y \<le> i \<Longrightarrow> fade_step sr i y = Inl IndexError"
  by (simp add: fade_step_def list_imul_def py_idx_neg_out)

lemma fade_loop_ok:
  assumes "c \<le> length y0"
  shows "\<exists>y. for_each [0..<c] (fade_step sr) y0 = Inr y \<and> fade_inv sr y0 c y"
proof (rule for_each_upt_inv[where I = "fade_inv sr y0"])
  show "fade_inv sr y0 0 y0" by (simp add: fade_inv_def)
  show "0 \<le> c" by simp
  fix i y assume i: "0 \<le> i" "i < c" and inv: "fade_inv sr y0 i y"
  from inv have len: "length y = length y0" by (simp add: fade_inv_def)
  have il: "i < length y" using i assms len by simp
  have "fade_inv sr y0 (Suc i) (y[length y - 1 - i := y ! (length y - 1 - i) * (real i / (real_of_int sr * 0.02))])"
    unfolding fade_inv_def
  proof (intro conjI allI impI)
    show "length (y[length y - 1 - i := y ! (length y - 1 - i) * (real i / (real_of_int sr * 0.02))]) = length y0"
      using len by simp
    fix j assume j: "j < length y0"
    show "y[length y - 1 - i := y ! (length y - 1 - i) * (real i / (real_of_int sr * 0.02))] ! j =
         (if length y0 - Suc i \<le> j then y0 ! j * (real (length y0 - 1 - j) / (real_of_int sr * 0.02)) else y0 ! j)"
    proof (cases "j = length y0 - 1 - i")
      case True
      then have "y ! j = y0 ! j" using inv j il len by (auto simp: fade_inv_def)
      moreover have "length y0 - 1 - j = i" using True il len by simp
      ultimately show ?thesis using True len j by simp
    next
      case False
      then have "(length y0 - Suc i \<le> j) = (length y0 - i \<le> j)" using il len by auto
      then show ?thesis using False inv j len by (simp add: fade_inv_def)
    qed
  qed
  then show "\<exists>s'. fade_step sr i y = Inr s' \<and> fade_inv sr y0 (Suc i) s'"
    using il by (simp add: fade_step_ok)
qed

lemma fade_loop_err:
  assumes "length y0 < c"
  shows "for_each [0..<c] (fade_step sr) y0 = Inl IndexError"
proof -
  let ?n = "length y0"
  have split: "[0..<c] = [0..<?n] @ ?n # [Suc ?n..<c]"
    using assms by (metis le0 less_imp_le_nat upt_add_eq_append upt_conv_Cons le_add_diff_inverse)
  obtain y where y: "for_each [0..<?n] (fade_step sr) y0 = Inr y" "fade_inv sr y0 ?n y"
    using fade_loop_ok[of ?n y0 sr] by auto
  then have "length y = ?n" by (simp add: fade_inv_def)
  then have "fade_step sr ?n y = Inl IndexError" by (simp add: fade_step_err)
  then show ?thesis using y(1) by (simp add: split for_each_append)
qed

section \<open>The synthesis loop of a note\<close>

lemma note_step_inv:
  assumes "i < n" and "note_inv R f sr seed n i s"
  shows "\<exists>s'. note_step R f sr i s = Inr s' \<and> note_inv R f sr seed n (Suc i) s'"
proof -
  obtain y rnd where s: "s = (y, rnd)" by (cases s)
  let ?m = "nat (py_int (fl (fl 0.01 * real_of_int sr)))"
  from assms(2) s have len: "length y = n" and r: "rnd = Rnd seed (min i ?m)"
    and old: "\<forall>j<i. y ! j = note_value R f sr seed j"
    by (simp_all add: note_inv_def)
  show ?thesis
  proof (cases "int i < py_int (fl (fl 0.01 * real_of_int sr))")
    case True
    then have im: "i < ?m" by simp
    then have mins: "min i ?m = i" "min (Suc i) ?m = Suc i" by simp_all
    have step: "note_step R f sr i s = Inr (y[i := note_value R f sr seed i], Rnd seed (Suc i))"
      using True by (simp add: s r mins note_step_def note_value_def Let_def)
    have "note_inv R f sr seed n (Suc i) (y[i := note_value R f sr seed i], Rnd seed (Suc i))"
      using len old assms(1) mins by (auto simp: note_inv_def nth_list_update less_Suc_eq)
    with step show ?thesis by simp
  next
    case False
    then have im: "?m \<le> i" by simp
    then have mins: "min i ?m = ?m" "min (Suc i) ?m = ?m" by simp_all
    have step: "note_step R f sr i s = Inr (y[i := note_value R f sr seed i], Rnd seed ?m)"
      using False by (simp add: s r mins note_step_def note_value_def Let_def)
    have "note_inv R f sr seed n (Suc i) (y[i := note_value R f sr seed i], Rnd seed ?m)"
      using len old assms(1) mins by (auto simp: note_inv_def nth_list_update less_Suc_eq)
    with step show ?thesis by simp
  qed
qed

lemma note_body_ok:
  "\<exists>y rnd. note_body R midi len sr = Inr (y, rnd) \<and>
     length y = nat (py_int (fl (real_of_int sr * len))) \<and>
     (\<forall>i<nat (py_int (fl (real_of_int sr * len))). y ! i = note_value R (midi_to_freq midi) sr (2025 + midi) i)"
proof -
  let ?n = "nat (py_int (fl (real_of_int sr * len)))"
  let ?I = "note_inv R (midi_to_freq midi) sr (2025 + midi) ?n"
  have "\<exists>s'. for_each [0..<?n] (note_step R (midi_to_freq midi) sr) (replicate ?n 0, py_Random (2025 + midi)) = Inr s' \<and> ?I ?n s'"
  proof (rule for_each_upt_inv[where I = ?I])
    show "?I 0 (replicate ?n 0, py_Random (2025 + midi))"
      by (simp add: note_inv_def py_Random_def)
    show "0 \<le> ?n" by simp
    show "\<And>i s. 0 \<le> i \<Longrightarrow> i < ?n \<Longrightarrow> ?I i s \<Longrightarrow>
        \<exists>s'. note_step R (midi_to_freq midi) sr i s = Inr s' \<and> ?I (Suc i) s'"
      by (rule note_step_inv)
  qed
  then show ?thesis
    by (auto simp: note_body_def py_range_def Let_def note_inv_def)
qed

lemma gen_err:
  assumes "nat (py_int (fl (real_of_int sr * len))) < nat (py_int (fl (real_of_int sr * fl 0.02)))"
  shows "generate_placeholder_note R midi len sr = Inl IndexError"
proof -
  obtain y rnd where y: "note_body R midi len sr = Inr (y, rnd)"
    "length y = nat (py_int (fl (real_of_int sr * len)))"
    using note_body_ok[of R midi len sr] by auto
  have "length y < nat (py_int (fl (real_of_int sr * fl 0.02)))" using assms y(2) by simp
  then show ?thesis
    using y(1) by (simp add: generate_placeholder_note_def py_range_def fade_loop_err)
qed

lemma gen_ok:
  assumes "nat (py_int (fl (real_of_int sr * fl 0.02))) \<le> nat (py_int (fl (real_of_int sr * len)))"
  shows "\<exists>y. generate_placeholder_note R midi len sr = Inr y \<and>
           length y = nat (py_int (fl (real_of_int sr * len))) \<and>
           (\<forall>j<length y. y ! j = note_value R (midi_to_freq midi) sr (2025 + midi) j *
               (if length y - nat (py_int (fl (real_of_int sr * fl 0.02))) \<le> j
                then real (length y - 1 - j) / (real_of_int sr * 0.02) else 1))"
proof -
  obtain y rnd where y: "note_body R midi len sr = Inr (y, rnd)"
    "length y = nat (py_int (fl (real_of_int sr * len)))"
    "\<forall>i<nat (py_int (fl (real_of_int sr * len))). y ! i = note_value R (midi_to_freq midi) sr (2025 + midi) i"
    using note_body_ok[of R midi len sr] by auto
  have "nat (py_int (fl (real_of_int sr * fl 0.02))) \<le> length y" using assms y(2) by simp
  from fade_loop_ok[OF this, of sr] obtain y' where
    y': "for_each [0..<nat (py_int (fl (real_of_int sr * fl 0.02)))] (fade_step sr) y = Inr y'"
      "fade_inv sr y (nat (py_int (fl (real_of_int sr * fl 0.02)))) y'" by auto
  show ?thesis
    using y y' by (auto simp: generate_placeholder_note_def py_range_def fade_inv_def)
qed

section \<open>Properties of the placeholder notes\<close>

lemma py_int_numeral [simp]: "py_int (numeral n) = numeral n"
  by (simp add: py_int_def)

lemma gen_err_default:
  assumes "nat (py_int (fl (44100 * len))) < 882"
  shows "generate_placeholder_note R midi len 44100 = Inl IndexError"
proof -
  have n: "real_of_int 44100 * len = 44100 * len" by simp
  have "nat (py_int (fl (real_of_int 44100 * len))) < nat (py_int (fl (real_of_int 44100 * fl 0.02)))"
    unfolding cnt_fade_note n using assms by simp
  then show ?thesis by (rule gen_err)
qed

lemma gen_ok_default:
  assumes "882 \<le> nat (py_int (fl (44100 * len)))"
  shows "\<exists>y. generate_placeholder_note R midi len 44100 = Inr y \<and>
           length y = nat (py_int (fl (44100 * len))) \<and>
           (\<forall>j<length y. y ! j = note_value R (midi_to_freq midi) 44100 (2025 + midi) j *
               (if length y - 882 \<le> j then real (length y - 1 - j) / 882 else 1))"
proof -
  have r: "real_of_int 44100 * 0.02 = (882::real)" by simp
  have n: "real_of_int 44100 * len = 44100 * len" by simp
  have "nat (py_int (fl (real_of_int 44100 * fl 0.02))) \<le> nat (py_int (fl (real_of_int 44100 * len)))"
    unfolding cnt_fade_note n using assms by simp
  from gen_ok[OF this, of R midi] show ?thesis
    unfolding cnt_fade_note r n nat_numeral .
qed





lemma len_hundredth: "py_int (fl (44100 * fl 0.01)) = 441"
proof -
  have "fl (44100 * (5764607523034235 / 2 ^ 59)) = 441"
    using fl_eval_ge1[of 8 "44100 * (5764607523034235 / 2 ^ 59)"] by (simp add: rne_def)
  then show ?thesis unfolding fl_hundredth by (simp add: py_int_def)
qed

text \<open>
  The durations the script passes are doubles. For a real below 0.02 that is not a double
  the product with 44100 can round up to 882, and then a buffer of 882 samples is
  returned:
\<close>

lemma real_below_fiftieth:
  "0.02 - 1 / 2 ^ 70 < (0.02::real) \<and> \<not> is_double (0.02 - 1 / 2 ^ 70) \<and>
   (\<exists>y. placeholder_for R midi (0.02 - 1 / 2 ^ 70) = Inr y \<and> length y = 882)"
proof -
  have nd: "fl (0.02 - 1 / 2 ^ 70) = 5764607523034235 / 2 ^ 58"
    using fl_eval_lt1[of 5 "0.02 - 1 / 2 ^ 70"] by (simp add: rne_def)
  have a: "\<not> is_double (0.02 - 1 / 2 ^ 70)"
    unfolding is_double_def nd by simp
  have m: "min 4.5 (0.02 - 1 / 2 ^ 70) = (0.02 - 1 / 2 ^ 70 :: real)" by simp
  have e: "fl (44100 * (0.02 - 1 / 2 ^ 70)) = 882"
    using fl_eval_ge1[of 9 "44100 * (0.02 - 1 / 2 ^ 70)"] by (simp add: rne_def)
  have n: "nat (py_int (fl (44100 * (0.02 - 1 / 2 ^ 70)))) = 882"
    unfolding e by simp
  have "882 \<le> nat (py_int (fl (44100 * (0.02 - 1 / 2 ^ 70))))" unfolding n by simp
  from gen_ok_default[OF this, of R midi] obtain y where
    "generate_placeholder_note R midi (0.02 - 1 / 2 ^ 70) 44100 = Inr y" "length y = 882"
    unfolding n by auto
  then have "\<exists>y. placeholder_for R midi (0.02 - 1 / 2 ^ 70) = Inr y \<and> length y = 882"
    unfolding placeholder_for_def m by simp
  with a show ?thesis by simp
qed



lemma len_full: "py_int (fl (44100 * 4.5)) = 198450"
proof -
  have "44100 * 4.5 = (198450::real)" by simp
  then show ?thesis by (simp only: fl_numeral_small py_int_numeral)
qed

text \<open>
  Claim C7. Whenever the placeholder-note synthesizer returns a buffer, at any pitch and
  duration, the buffer is not empty and its final sample is exactly 0: the first step of the
  20 ms fade multiplies it by \<open>0/(sr*0.02)\<close>, and no later step touches it.
\<close>
theorem note_last_sample_zero:
  assumes "generate_placeholder_note R midi len 44100 = Inr y"
  shows "y \<noteq> [] \<and> last y = 0"
proof -
  have ge: "882 \<le> nat (py_int (fl (44100 * len)))"
  proof (rule ccontr)
    assume "\<not> ?thesis"
    then have "generate_placeholder_note R midi len 44100 = Inl IndexError"
      by (intro gen_err_default) simp
    with assms show False by simp
  qed
  from gen_ok_default[OF ge, of R midi] assms
  have len: "length y = nat (py_int (fl (44100 * len)))"
    and pt: "\<forall>j<length y. y ! j = note_value R (midi_to_freq midi) 44100 (2025 + midi) j *
               (if length y - 882 \<le> j then real (length y - 1 - j) / 882 else 1)"
    by auto
  have pos: "882 \<le> length y" using ge len by simp
  then have ne: "y \<noteq> []" by auto
  have last_in: "length y - 1 < length y" "length y - 882 \<le> length y - 1"
    using pos by simp_all
  have "y ! (length y - 1) =
      note_value R (midi_to_freq midi) 44100 (2025 + midi) (length y - 1) *
      (real (length y - 1 - (length y - 1)) / 882)"
    using pt[rule_format, OF last_in(1)] last_in(2) by (simp only: if_True)
  then have "y ! (length y - 1) = 0" by simp
  then show ?thesis using ne by (simp add: last_conv_nth)
qed

theorem note_last_sample_zero_witness:
  "\<exists>y. generate_placeholder_note demo_rng 69 4.5 44100 = Inr y \<and> y \<noteq> [] \<and> last y = 0"
proof -
  have "882 \<le> nat (py_int (fl (44100 * 4.5)))"
    unfolding len_full by simp
  from gen_ok_default[OF this, of demo_rng 69] obtain y where
    y: "generate_placeholder_note demo_rng 69 4.5 44100 = Inr y" by auto
  with note_last_sample_zero[OF y] show ?thesis by simp
qed

lemma note_value_spec:
  "note_value R (midi_to_freq midi) 44100 (2025 + midi) i =
     spec_envelope (real i / 44100) *
       (spec_tone (440 * 2 powr (real_of_int (midi - 69) / 12)) (real i / 44100) +
        spec_noise R midi i (real i / 44100))"
proof -
  have w: "(int i < py_int (fl (fl 0.01 * real_of_int 44100))) = (real i / 44100 < 0.01)"
    unfolding cnt_window by simp
  have ramp: "1 - real i / (0.01 * real_of_int 44100) = 1 - real i / 44100 / 0.01"
    by simp
  show ?thesis
    unfolding note_value_def Let_def w ramp spec_envelope_def spec_tone_def spec_noise_def midi_to_freq_def
    by (simp add: algebra_simps)
qed

text \<open>
  Claim C6. For every MIDI pitch and every sample index \<open>i\<close>, with \<open>t =
  i/44100\<close>, the sample before the closing fade equals envelope times (tone plus
  noise): the envelope is \<open>min(1, t/0.01) * exp(-t/2.0)\<close>, the tone is the sum
  of four partials at ratios 1.0, 2.0, 3.01, 4.2 of \<open>f = 440 *
  2^((pitch-69)/12)\<close> with weights 0.55, 0.22, 0.12, 0.08, and the noise, present only
  in the first 10 ms, is the draw of the generator seeded with \<open>2025 + pitch\<close>,
  mapped to \<open>2u - 1\<close>, scaled by 0.4 and ramped down linearly to zero over that
  window. The synthesis loop always completes, with \<open>int(44100 * length)\<close>
  samples, and a returned buffer keeps these values at every index before its last 882.
\<close>
theorem note_sample_formula:
  "\<exists>y rnd. note_body R midi len 44100 = Inr (y, rnd) \<and>
      length y = nat (py_int (fl (44100 * len))) \<and>
      (\<forall>i<length y. y ! i =
         spec_envelope (real i / 44100) *
           (spec_tone (440 * 2 powr (real_of_int (midi - 69) / 12)) (real i / 44100) +
            spec_noise R midi i (real i / 44100))) \<and>
      (\<forall>z. generate_placeholder_note R midi len 44100 = Inr z \<longrightarrow>
         length z = length y \<and> (\<forall>i. i + 882 < length z \<longrightarrow> z ! i = y ! i))"
proof -
  from note_body_ok[of R midi len 44100] obtain y rnd where
    y: "note_body R midi len 44100 = Inr (y, rnd)"
       "length y = nat (py_int (fl (44100 * len)))"
       "\<forall>i<length y. y ! i = note_value R (midi_to_freq midi) 44100 (2025 + midi) i"
    by auto
  have fin: "length z = length y \<and> (\<forall>i. i + 882 < length z \<longrightarrow> z ! i = y ! i)"
    if z: "generate_placeholder_note R midi len 44100 = Inr z" for z
  proof -
    have ge: "882 \<le> nat (py_int (fl (44100 * len)))"
    proof (rule ccontr)
      assume "\<not> ?thesis"
      then have "generate_placeholder_note R midi len 44100 = Inl IndexError"
        by (intro gen_err_default) simp
      with z show False by simp
    qed
    from gen_ok_default[OF ge, of R midi] z
    have lz: "length z = nat (py_int (fl (44100 * len)))"
      and pz: "\<forall>j<length z. z ! j = note_value R (midi_to_freq midi) 44100 (2025 + midi) j *
               (if length z - 882 \<le> j then real (length z - 1 - j) / 882 else 1)"
      by auto
    have "z ! i = y ! i" if "i + 882 < length z" for i
    proof -
      have "i < length z" "\<not> length z - 882 \<le> i" using that by simp_all
      then have "z ! i = note_value R (midi_to_freq midi) 44100 (2025 + midi) i"
        using pz by simp
      moreover have "i < length y" using that lz y(2) by simp
      ultimately show ?thesis using y(3) by simp
    qed
    then show ?thesis using lz y(2) by simp
  qed
  show ?thesis
    using y fin by (auto simp: note_value_spec)
qed

theorem note_sample_formula_witness:
  "\<exists>y rnd z. note_body demo_rng 69 4.5 44100 = Inr (y, rnd) \<and> 100 < length y \<and>
      y ! 100 = spec_envelope (100 / 44100) *
           (spec_tone (440 * 2 powr (real_of_int (69 - 69) / 12)) (100 / 44100) +
            spec_noise demo_rng 69 100 (100 / 44100)) \<and>
      generate_placeholder_note demo_rng 69 4.5 44100 = Inr z \<and> z ! 100 = y ! 100"
proof -
  from note_sample_formula[of demo_rng 69 "4.5"] obtain y rnd where
    y: "note_body demo_rng 69 4.5 44100 = Inr (y, rnd)"
       "length y = nat (py_int (fl (44100 * 4.5)))"
       "\<forall>i<length y. y ! i =
         spec_envelope (real i / 44100) *
           (spec_tone (440 * 2 powr (real_of_int (69 - 69) / 12)) (real i / 44100) +
            spec_noise demo_rng 69 i (real i / 44100))"
       "\<forall>z. generate_placeholder_note demo_rng 69 4.5 44100 = Inr z \<longrightarrow>
         length z = length y \<and> (\<forall>i. i + 882 < length z \<longrightarrow> z ! i = y ! i)"
    by blast
  have l: "length y = 198450" using y(2) unfolding len_full by simp
  then have "100 < length y" by simp
  with y(3) have v: "y ! 100 = spec_envelope (real 100 / 44100) *
           (spec_tone (440 * 2 powr (real_of_int (69 - 69) / 12)) (real 100 / 44100) +
            spec_noise demo_rng 69 100 (real 100 / 44100))" by blast
  have "882 \<le> nat (py_int (fl (44100 * 4.5)))" unfolding len_full by simp
  from gen_ok_default[OF this, of demo_rng 69] obtain z where
    z: "generate_placeholder_note demo_rng 69 4.5 44100 = Inr z" by blast
  with y(4) l have "z ! 100 = y ! 100" by simp
  with y(1) l v z show ?thesis by simp
qed

lemma len_129_128: "py_int (fl (44100 * (129 / 128))) = 44444"
proof -
  have v: "44100 * (129 / 128) = (1422225 / 32 :: real)" by simp
  have e: "fl (1422225 / 32) = 1422225 / 32"
    using fl_eval_ge1[of 15 "1422225 / 32"] by simp
  show ?thesis unfolding v e by (simp add: py_int_def)
qed

text \<open>
  Claim C3, as stated, fails: the buffer length is \<open>int(44100 * duration)\<close>, a
  truncation. At the duration 129/128 seconds the product is 44444.53125, the buffer has
  44444 samples and the rounded value is 44445. At the duration 0.01 seconds no buffer is
  returned at all.
\<close>
theorem placeholder_length_round_counterexample:
  "map_sum id length (placeholder_for demo_rng 60 (129 / 128)) = Inr 44444 \<and>
   round (44100 * (129 / 128) :: real) = 44445 \<and>
   placeholder_for demo_rng 60 (fl 0.01) = Inl IndexError \<and> fl 0.01 < 4.5"
proof -
  have "882 \<le> nat (py_int (fl (44100 * (129 / 128))))" unfolding len_129_128 by simp
  from gen_ok_default[OF this, of demo_rng 60] obtain y where
    "generate_placeholder_note demo_rng 60 (129 / 128) 44100 = Inr y" "length y = 44444"
    unfolding len_129_128 by auto
  then have a: "map_sum id length (placeholder_for demo_rng 60 (129 / 128)) = Inr 44444"
    by (simp add: placeholder_for_def)
  have b: "round (44100 * (129 / 128) :: real) = 44445" by (simp add: round_def)
  have lt: "fl 0.01 < 4.5" unfolding fl_hundredth by simp
  then have m: "min 4.5 (fl 0.01) = fl 0.01" by simp
  have "nat (py_int (fl (44100 * fl 0.01))) < 882" unfolding len_hundredth by simp
  then have "generate_placeholder_note demo_rng 60 (fl 0.01) 44100 = Inl IndexError"
    by (rule gen_err_default)
  then have c: "placeholder_for demo_rng 60 (fl 0.01) = Inl IndexError"
    unfolding placeholder_for_def m .
  from a b c lt show ?thesis by simp
qed

text \<open>
  Claim C3, amended. For every MIDI pitch, a requested duration of at least 4.5 seconds
  gives a buffer of exactly \<open>round(44100 * 4.5) = 198450\<close> samples, and a
  requested duration \<open>d\<close> with \<open>0.02 \<le> d < 4.5\<close> gives a buffer
  of exactly \<open>int(44100 * d)\<close> samples: the float product, which is the exact
  product rounded to the nearest double, truncated to an integer. At the double 0.3 the
  buffer has 13230 samples, and at the double 0.7 it has 30869.
\<close>
theorem placeholder_length_truncated:
  "(4.5 \<le> d \<longrightarrow> (\<exists>y. placeholder_for R midi d = Inr y \<and> length y = 198450 \<and>
        int (length y) = round (44100 * 4.5 :: real))) \<and>
   (0.02 \<le> d \<and> d < 4.5 \<longrightarrow> (\<exists>y. placeholder_for R midi d = Inr y \<and>
        int (length y) = \<lfloor>fl (44100 * d)\<rfloor>))"
proof (intro conjI impI)
  assume d: "4.5 \<le> d"
  then have m: "min 4.5 d = 4.5" by simp
  have "882 \<le> nat (py_int (fl (44100 * 4.5)))" unfolding len_full by simp
  from gen_ok_default[OF this, of R midi] obtain y where
    "generate_placeholder_note R midi 4.5 44100 = Inr y" "length y = 198450"
    unfolding len_full by auto
  moreover have "round (44100 * 4.5 :: real) = 198450" by (simp add: round_def)
  moreover have "placeholder_for R midi d = generate_placeholder_note R midi 4.5 44100"
    unfolding placeholder_for_def m ..
  ultimately show "\<exists>y. placeholder_for R midi d = Inr y \<and> length y = 198450 \<and>
        int (length y) = round (44100 * 4.5 :: real)"
    by simp
next
  assume d: "0.02 \<le> d \<and> d < 4.5"
  then have m: "min 4.5 d = d" by simp
  have "(882::real) \<le> 44100 * d" using d by simp
  then have lo: "882 \<le> fl (44100 * d)"
    using fl_numeral_small(1) by (intro fl_lower) simp_all
  then have n: "py_int (fl (44100 * d)) = \<lfloor>fl (44100 * d)\<rfloor>" by (simp add: py_int_def)
  have "(882::int) \<le> \<lfloor>fl (44100 * d)\<rfloor>" using lo by (simp add: le_floor_iff)
  then have "882 \<le> nat (py_int (fl (44100 * d)))" unfolding n by linarith
  from gen_ok_default[OF this, of R midi] obtain y where
    "generate_placeholder_note R midi d 44100 = Inr y" "length y = nat \<lfloor>fl (44100 * d)\<rfloor>"
    unfolding n by auto
  moreover have "0 \<le> \<lfloor>fl (44100 * d)\<rfloor>" using lo by (simp add: le_floor_iff)
  moreover have "placeholder_for R midi d = generate_placeholder_note R midi d 44100"
    unfolding placeholder_for_def m ..
  ultimately show "\<exists>y. placeholder_for R midi d = Inr y \<and> int (length y) = \<lfloor>fl (44100 * d)\<rfloor>"
    by simp
qed

lemma fl_three_tenths: "fl 0.3 = 5404319552844595 / 2 ^ 54"
  using fl_eval_lt1[of 1 "0.3"] by (simp add: rne_def)

lemma fl_seven_tenths: "fl 0.7 = 6305039478318694 / 2 ^ 53"
  using fl_eval_lt1[of 0 "0.7"] by (simp add: rne_def)

lemma len_three_tenths: "\<lfloor>fl (44100 * fl 0.3)\<rfloor> = 13230"
proof -
  have e: "fl (44100 * (5404319552844595 / 2 ^ 54)) = 13230"
    using fl_eval_ge1[of 13 "44100 * (5404319552844595 / 2 ^ 54)"] by (simp add: rne_def)
  show ?thesis unfolding fl_three_tenths e by simp
qed

lemma len_seven_tenths: "\<lfloor>fl (44100 * fl 0.7)\<rfloor> = 30869"
proof -
  have e: "fl (44100 * (6305039478318694 / 2 ^ 53)) = 8485480987361279 / 2 ^ 38"
    using fl_eval_ge1[of 14 "44100 * (6305039478318694 / 2 ^ 53)"] by (simp add: rne_def)
  show ?thesis unfolding fl_seven_tenths e by simp
qed

theorem placeholder_length_truncated_witness:
  "(\<exists>y. placeholder_for demo_rng 60 6 = Inr y \<and> length y = 198450) \<and>
   (\<exists>y. placeholder_for demo_rng 60 (fl 0.3) = Inr y \<and> length y = 13230) \<and>
   (\<exists>y. placeholder_for demo_rng 60 (fl 0.7) = Inr y \<and> length y = 30869)"
proof -
  have a: "0.02 \<le> fl 0.3 \<and> fl 0.3 < 4.5" unfolding fl_three_tenths by simp
  have b: "0.02 \<le> fl 0.7 \<and> fl 0.7 < 4.5" unfolding fl_seven_tenths by simp
  from placeholder_length_truncated[of 6 demo_rng 60] placeholder_length_truncated[of "fl 0.3" demo_rng 60] placeholder_length_truncated[of "fl 0.7" demo_rng 60] a b
  show ?thesis unfolding len_three_tenths len_seven_tenths by auto
qed

section \<open>Properties of the impulse responses\<close>

lemma list_iadd_ok:
  "0 \<le> i \<Longrightarrow> i < int (length xs) \<Longrightarrow> list_iadd xs i v = Inr (xs[nat i := xs ! nat i + v])"
  by (simp add: list_iadd_def py_idx_def)

lemma early_step_alt:
  "early_step sr N (d, l) (nl, nr) =
     (if refl_off sr d < N
      then (case list_iadd nl (refl_off sr d) l of
              Inl e \<Rightarrow> Inl e
            | Inr nl' \<Rightarrow>
                (case list_iadd nr (max 0 (refl_off sr d - 1)) (l * 0.98) of
                   Inl e \<Rightarrow> Inl e
                 | Inr nr' \<Rightarrow> Inr (nl', nr')))
      else Inr (nl, nr))"
  unfolding early_step_def refl_off_def by (simp only: prod.case Let_def)

lemma early_step_ok:
  assumes "0 \<le> refl_off sr d" "length nl = nat N" "length nr = nat N"
  shows "\<exists>nl' nr'. early_step sr N (d, l) (nl, nr) = Inr (nl', nr') \<and>
           length nl' = nat N \<and> length nr' = nat N \<and>
           (\<forall>k<nat N. nl' ! k = nl ! k + (if refl_off sr d < N \<and> refl_off sr d = int k then l else 0)) \<and>
           (\<forall>k<nat N. nr' ! k = nr ! k + (if refl_off sr d < N \<and> max 0 (refl_off sr d - 1) = int k then l * 0.98 else 0))"
proof (cases "refl_off sr d < N")
  case False
  then show ?thesis using assms by (simp add: early_step_alt)
next
  case True
  let ?o = "refl_off sr d"
  have a: "list_iadd nl ?o l = Inr (nl[nat ?o := nl ! nat ?o + l])"
    using assms True by (intro list_iadd_ok) auto
  have b: "list_iadd nr (max 0 (?o - 1)) (l * 0.98) =
        Inr (nr[nat (max 0 (?o - 1)) := nr ! nat (max 0 (?o - 1)) + l * 0.98])"
    using assms True by (intro list_iadd_ok) auto
  have st: "early_step sr N (d, l) (nl, nr) =
      Inr (nl[nat ?o := nl ! nat ?o + l], nr[nat (max 0 (?o - 1)) := nr ! nat (max 0 (?o - 1)) + l * 0.98])"
    using True a b by (simp add: early_step_alt)
  have ko: "\<And>k. (nat ?o = k) = (?o = int k)" using assms(1) by auto
  have km: "\<And>k. (nat (max 0 (?o - 1)) = k) = (max 0 (?o - 1) = int k)" by auto
  show ?thesis
    unfolding st using assms True
    by (auto simp: nth_list_update ko km)
qed

lemma early_loop_ok:
  assumes "\<forall>(d, l)\<in>set es. 0 \<le> refl_off sr d" "length nl = nat N" "length nr = nat N"
  shows "\<exists>nl' nr'. early_reflections sr N es (nl, nr) = Inr (nl', nr') \<and>
           length nl' = nat N \<and> length nr' = nat N \<and>
           (\<forall>k<nat N. nl' ! k = nl ! k + left_sum sr N es k) \<and>
           (\<forall>k<nat N. nr' ! k = nr ! k + right_sum sr N es k)"
  using assms
proof (induction es arbitrary: nl nr)
  case Nil
  then show ?case by (simp add: early_reflections_def left_sum_def right_sum_def)
next
  case (Cons x es)
  obtain d l where x: "x = (d, l)" by (cases x)
  from Cons.prems x have d0: "0 \<le> refl_off sr d" by simp
  from early_step_ok[OF d0 Cons.prems(2,3), of l] obtain nl1 nr1 where
    s1: "early_step sr N (d, l) (nl, nr) = Inr (nl1, nr1)"
      "length nl1 = nat N" "length nr1 = nat N"
      "\<forall>k<nat N. nl1 ! k = nl ! k + (if refl_off sr d < N \<and> refl_off sr d = int k then l else 0)"
      "\<forall>k<nat N. nr1 ! k = nr ! k + (if refl_off sr d < N \<and> max 0 (refl_off sr d - 1) = int k then l * 0.98 else 0)"
    by blast
  have "\<forall>(d, l)\<in>set es. 0 \<le> refl_off sr d" using Cons.prems(1) by simp
  from Cons.IH[OF this s1(2,3)] obtain nl2 nr2 where
    s2: "early_reflections sr N es (nl1, nr1) = Inr (nl2, nr2)"
      "length nl2 = nat N" "length nr2 = nat N"
      "\<forall>k<nat N. nl2 ! k = nl1 ! k + left_sum sr N es k"
      "\<forall>k<nat N. nr2 ! k = nr1 ! k + right_sum sr N es k"
    by blast
  have run: "early_reflections sr N (x # es) (nl, nr) = Inr (nl2, nr2)"
    using s1(1) s2(1) by (simp add: early_reflections_def x)
  have "\<forall>k<nat N. nl2 ! k = nl ! k + left_sum sr N (x # es) k"
    using s1(4) s2(4) by (simp add: left_sum_def x)
  moreover have "\<forall>k<nat N. nr2 ! k = nr ! k + right_sum sr N (x # es) k"
    using s1(5) s2(5) by (simp add: right_sum_def x)
  ultimately show ?case using run s2(2,3) by blast
qed

lemma py_int_nonneg: "0 \<le> x \<Longrightarrow> 0 \<le> py_int x"
  by (simp add: py_int_def)

lemma refl_off_nonneg: "0 \<le> sr \<Longrightarrow> 0 \<le> d \<Longrightarrow> 0 \<le> refl_off sr d"
  unfolding refl_off_def by (intro py_int_nonneg fl_nonneg mult_nonneg_nonneg) simp_all

lemma refl_off_44100_6: "refl_off 44100 6 = 264" "refl_off 44100 11 = 485"
proof -
  have a: "fl (real_of_int 6 / 1000.0) = 6917529027641082 / 2 ^ 60"
    using fl_eval_lt1[of 7 "real_of_int 6 / 1000.0"] by (simp add: rne_def)
  have b: "fl (real_of_int 44100 * (6917529027641082 / 2 ^ 60)) = 2327446213676237 / 2 ^ 43"
    using fl_eval_ge1[of 8 "real_of_int 44100 * (6917529027641082 / 2 ^ 60)"] by (simp add: rne_def)
  show "refl_off 44100 6 = 264"
    unfolding refl_off_def a b by (simp add: py_int_def)
  have c: "fl (real_of_int 11 / 1000.0) = 6341068275337658 / 2 ^ 59"
    using fl_eval_lt1[of 6 "real_of_int 11 / 1000.0"] by (simp add: rne_def)
  have d: "fl (real_of_int 44100 * (6341068275337658 / 2 ^ 59)) = 8533969450146201 / 2 ^ 44"
    using fl_eval_ge1[of 8 "real_of_int 44100 * (6341068275337658 / 2 ^ 59)"] by (simp add: rne_def)
  show "refl_off 44100 11 = 485"
    unfolding refl_off_def c d by (simp add: py_int_def)
qed

lemma refl_off_far:
  assumes "5 \<le> d"
  shows "128 \<le> refl_off 44100 d"
proof -
  have p: "fl (1 / 256) = 1 / 256"
    using fl_eval_lt1[of 7 "1 / 256"] by simp
  have "(1 / 256 :: real) \<le> real_of_int d / 1000.0" using assms by simp
  then have "1 / 256 \<le> fl (real_of_int d / 1000.0)"
    using p by (intro fl_lower) simp_all
  then have "(128::real) \<le> real_of_int 44100 * fl (real_of_int d / 1000.0)" by simp
  then have "128 \<le> fl (real_of_int 44100 * fl (real_of_int d / 1000.0))"
    using fl_numeral_small(2) by (intro fl_lower) simp_all
  then show ?thesis unfolding refl_off_def by (simp add: py_int_def le_floor_iff)
qed

text \<open>
  Claim C2, amended. For every list of \<open>(delayMs, level)\<close> pairs with
  non-negative delays, so for every preset, and every buffer length \<open>N\<close>, the
  early-reflection loop started on zero buffers completes, and at every index
  \<open>k\<close> the left channel holds the sum of the levels of the pairs whose offset
  \<open>int(44100 * (delayMs/1000))\<close>, a truncation, is \<open>k\<close>, and the
  right channel holds the sum of \<open>level * 0.98\<close> over the pairs whose offset is
  below \<open>N\<close> and for which \<open>max(0, offset - 1)\<close> is
  \<open>k\<close>: colliding reflections add up.
\<close>
theorem early_reflections_truncated:
  assumes "\<forall>(d, l)\<in>set es. 0 \<le> d"
  shows "\<exists>nl nr. early_reflections 44100 N es (replicate (nat N) 0, replicate (nat N) 0) = Inr (nl, nr) \<and>
           length nl = nat N \<and> length nr = nat N \<and>
           (\<forall>k<nat N. nl ! k = left_sum 44100 N es k \<and> nr ! k = right_sum 44100 N es k)"
proof -
  have "\<forall>(d, l)\<in>set es. 0 \<le> refl_off 44100 d"
    using assms by (auto intro: refl_off_nonneg)
  from early_loop_ok[OF this, of "replicate (nat N) 0" N "replicate (nat N) 0"]
  show ?thesis by auto
qed

theorem early_reflections_truncated_witness:
  "\<exists>nl nr. early_reflections 44100 39690 [(6, 0.6), (11, 0.4)]
        (replicate 39690 0, replicate 39690 0) = Inr (nl, nr) \<and>
      nl ! 264 = 0.6 \<and> nl ! 485 = 0.4 \<and> nr ! 263 = 0.6 * 0.98 \<and> nr ! 484 = 0.4 * 0.98 \<and> nl ! 265 = 0"
proof -
  have h: "\<forall>(d, l)\<in>set [(6, 0.6), (11, 0.4 :: real)]. (0::int) \<le> d" by simp
  from early_reflections_truncated[OF h, of 39690] obtain nl nr where
    r: "early_reflections 44100 39690 [(6, 0.6), (11, 0.4)]
          (replicate 39690 0, replicate 39690 0) = Inr (nl, nr)"
    and pt: "\<forall>k<39690. nl ! k = left_sum 44100 39690 [(6, 0.6), (11, 0.4)] k \<and>
                         nr ! k = right_sum 44100 39690 [(6, 0.6), (11, 0.4)] k"
    by auto
  have "nl ! 264 = 0.6" "nl ! 485 = 0.4" "nr ! 263 = 0.6 * 0.98" "nr ! 484 = 0.4 * 0.98" "nl ! 265 = 0"
    using pt by (simp_all add: left_sum_def right_sum_def refl_off_44100_6)
  with r show ?thesis by blast
qed

text \<open>
  Claim C2, as stated, fails: the index is truncated, not rounded. For the studio preset
  (39690 samples), the pair \<open>(6, 0.6)\<close> has \<open>44100 * 6 / 1000 =
  264.6\<close>, whose rounding is 265; the loop adds 0.6 at index 264 of the left channel
  and \<open>0.6 * 0.98\<close> at index 263 of the right one, and leaves the indices 265
  and 264 at zero.
\<close>
theorem early_reflections_round_counterexample:
  "round (44100 * 6 / 1000 :: real) = 265 \<and>
   left_sample (early_reflections 44100 39690 [(6, 0.6), (11, 0.4)]
      (replicate 39690 0, replicate 39690 0)) 265 = Some 0 \<and>
   left_sample (early_reflections 44100 39690 [(6, 0.6), (11, 0.4)]
      (replicate 39690 0, replicate 39690 0)) 264 = Some 0.6 \<and>
   right_sample (early_reflections 44100 39690 [(6, 0.6), (11, 0.4)]
      (replicate 39690 0, replicate 39690 0)) 264 = Some 0 \<and>
   right_sample (early_reflections 44100 39690 [(6, 0.6), (11, 0.4)]
      (replicate 39690 0, replicate 39690 0)) 263 = Some (0.6 * 0.98)"
proof -
  have "\<forall>(d, l)\<in>set [(6, 0.6), (11, 0.4 :: real)]. 0 \<le> refl_off 44100 d"
    by (simp add: refl_off_44100_6)
  from early_loop_ok[OF this, of "replicate 39690 0" 39690 "replicate 39690 0"] obtain nl nr where
    r: "early_reflections 44100 39690 [(6, 0.6), (11, 0.4)]
          (replicate 39690 0, replicate 39690 0) = Inr (nl, nr)"
    and len: "length nl = 39690" "length nr = 39690"
    and pl: "\<forall>k<39690. nl ! k = replicate 39690 0 ! k + left_sum 44100 39690 [(6, 0.6), (11, 0.4)] k"
    and pr: "\<forall>k<39690. nr ! k = replicate 39690 0 ! k + right_sum 44100 39690 [(6, 0.6), (11, 0.4)] k"
    by auto
  have "nl ! 265 = 0" "nl ! 264 = 0.6" using pl
    by (simp_all add: left_sum_def refl_off_44100_6)
  moreover have "nr ! 264 = 0" "nr ! 263 = 0.6 * 0.98" using pr
    by (simp_all add: right_sum_def refl_off_44100_6)
  moreover have "round (44100 * 6 / 1000 :: real) = 265" by (simp add: round_def)
  ultimately show ?thesis unfolding r left_sample_def right_sample_def using len by simp
qed

lemma tail_step_inv:
  assumes "i < length nl0" "i < length nr0" "tail_inv R p sr N seed nl0 nr0 i s"
  shows "\<exists>s'. tail_step R p sr N i s = Inr s' \<and> tail_inv R p sr N seed nl0 nr0 (Suc i) s'"
proof -
  obtain valL valR rnd nl nr where s: "s = (valL, valR, rnd, nl, nr)" by (cases s)
  from assms(3) s have v: "valL = tailL R seed i" "valR = tailR R seed i" "rnd = Rnd seed (2 * i)"
    and len: "length nl = length nl0" "length nr = length nr0"
    and pl: "\<forall>j<length nl0. nl ! j = nl0 ! j + (if j < i then tailL R seed (Suc j) * tail_gain p sr N j else 0)"
    and pr: "\<forall>j<length nr0. nr ! j = nr0 ! j + (if j < i then tailR R seed (Suc j) * tail_gain p sr N j else 0)"
    by (simp_all add: tail_inv_def)
  let ?nl = "nl[i := nl ! i + tailL R seed (Suc i) * tail_gain p sr N i]"
  let ?nr = "nr[i := nr ! i + tailR R seed (Suc i) * tail_gain p sr N i]"
  have tl: "(tailL R seed i + 0.05 * (R seed (2 * i) * 2 - 1)) / 1.05 = tailL R seed (Suc i)"
    by simp
  have tr: "(tailR R seed i + 0.05 * (R seed (Suc (2 * i)) * 2 - 1)) / 1.05 = tailR R seed (Suc i)"
    by simp
  have g: "\<And>w. w * exp (- real i / (decay p * real_of_int sr)) *
              (1 - hf_decay p * (real i / real_of_int N)) * 0.6 = w * tail_gain p sr N i"
    by (simp add: tail_gain_def)
  have "tail_step R p sr N i s =
      Inr (tailL R seed (Suc i), tailR R seed (Suc i), Rnd seed (Suc (Suc (2 * i))), ?nl, ?nr)"
    unfolding tail_step_def s v
    by (simp only: prod.case Let_def py_random.simps tl tr g)
  then have step: "tail_step R p sr N i s =
      Inr (tailL R seed (Suc i), tailR R seed (Suc i), Rnd seed (2 * Suc i), ?nl, ?nr)"
    by (simp del: tailL.simps tailR.simps)
  have "\<forall>j<length nl0. ?nl ! j = nl0 ! j + (if j < Suc i then tailL R seed (Suc j) * tail_gain p sr N j else 0)"
    using pl len assms(1) by (auto simp: nth_list_update less_Suc_eq simp del: tailL.simps)
  moreover have "\<forall>j<length nr0. ?nr ! j = nr0 ! j + (if j < Suc i then tailR R seed (Suc j) * tail_gain p sr N j else 0)"
    using pr len assms(2) by (auto simp: nth_list_update less_Suc_eq simp del: tailR.simps)
  ultimately have "tail_inv R p sr N seed nl0 nr0 (Suc i)
      (tailL R seed (Suc i), tailR R seed (Suc i), Rnd seed (2 * Suc i), ?nl, ?nr)"
    using len unfolding tail_inv_def by (simp del: tailL.simps tailR.simps)
  with step show ?thesis by simp
qed

lemma tail_loop_ok:
  assumes "length nl0 = n" "length nr0 = n"
  shows "\<exists>valL valR rnd nl nr.
           for_each [0..<n] (tail_step R p sr N) (0, 0, py_Random seed, nl0, nr0) = Inr (valL, valR, rnd, nl, nr) \<and>
           length nl = n \<and> length nr = n \<and>
           (\<forall>j<n. nl ! j = nl0 ! j + tailL R seed (Suc j) * tail_gain p sr N j) \<and>
           (\<forall>j<n. nr ! j = nr0 ! j + tailR R seed (Suc j) * tail_gain p sr N j)"
proof -
  let ?I = "tail_inv R p sr N seed nl0 nr0"
  have "\<exists>s'. for_each [0..<n] (tail_step R p sr N) (0, 0, py_Random seed, nl0, nr0) = Inr s' \<and> ?I n s'"
  proof (rule for_each_upt_inv[where I = ?I])
    show "?I 0 (0, 0, py_Random seed, nl0, nr0)" by (simp add: tail_inv_def py_Random_def)
    show "0 \<le> n" by simp
    show "\<And>i s. 0 \<le> i \<Longrightarrow> i < n \<Longrightarrow> ?I i s \<Longrightarrow> \<exists>s'. tail_step R p sr N i s = Inr s' \<and> ?I (Suc i) s'"
      using assms by (intro tail_step_inv) simp_all
  qed
  then obtain s' where s': "for_each [0..<n] (tail_step R p sr N) (0, 0, py_Random seed, nl0, nr0) = Inr s'" "?I n s'"
    by blast
  obtain valL valR rnd nl nr where "s' = (valL, valR, rnd, nl, nr)" by (cases s')
  with s' assms show ?thesis by (auto simp: tail_inv_def simp del: tailL.simps tailR.simps)
qed

lemma list_imul_front: "i < length y \<Longrightarrow> list_imul y (int i) k = Inr (y[i := y ! i * k])"
  by (simp add: list_imul_def py_idx_nonneg)

lemma list_imul_back:
  "i < length y \<Longrightarrow> list_imul y (- int i - 1) k = Inr (y[length y - 1 - i := y ! (length y - 1 - i) * k])"
  by (simp add: list_imul_def py_idx_neg)

lemma fade_one_list:
  assumes "i < length y0" "length y = length y0"
    and "\<forall>j<length y0. y ! j = y0 ! j * ir_fade_fac sr (length y0) i j"
    and "y1 = y[i := y ! i * (real i / (real_of_int sr * 0.01))]"
    and "y2 = y1[length y0 - 1 - i := y1 ! (length y0 - 1 - i) * (real i / (real_of_int sr * 0.01))]"
    and "j < length y0"
  shows "y2 ! j = y0 ! j * ir_fade_fac sr (length y0) (Suc i) j"
proof -
  let ?n = "length y0" and ?c = "real_of_int sr * 0.01"
  let ?k = "real i / ?c"
  have yj: "y ! j = y0 ! j * ir_fade_fac sr ?n i j" using assms(3,6) by simp
  have y1j: "y1 ! j = y ! j * (if j = i then ?k else 1)"
    using assms(1,2,4,6) by (simp add: nth_list_update)
  have y2j: "y2 ! j = y1 ! j * (if j = ?n - 1 - i then ?k else 1)"
    using assms(1,2,4,5,6) by (simp add: nth_list_update)
  have f1: "(if j < Suc i then real j / ?c else 1) = (if j < i then real j / ?c else 1) * (if j = i then ?k else 1)"
    by (auto simp: less_Suc_eq)
  have bk: "(?n - Suc i \<le> j) = (?n - i \<le> j \<or> j = ?n - 1 - i)"
    using assms(1,6) by auto
  have ki: "j = ?n - 1 - i \<Longrightarrow> real (?n - 1 - j) = real i" using assms(1,6) by auto
  have excl: "j = ?n - 1 - i \<Longrightarrow> \<not> ?n - i \<le> j" using assms(1,6) by auto
  have f2: "(if ?n - Suc i \<le> j then real (?n - 1 - j) / ?c else 1) =
       (if ?n - i \<le> j then real (?n - 1 - j) / ?c else 1) * (if j = ?n - 1 - i then ?k else 1)"
    unfolding bk using ki excl by auto
  show ?thesis
    unfolding y2j y1j yj ir_fade_fac_def f1 f2 by (simp add: mult_ac)
qed

lemma ir_fade_step_inv:
  assumes "i < length nl0" "i < length nr0" "ir_fade_inv sr nl0 nr0 i s"
  shows "\<exists>s'. ir_fade_step sr i s = Inr s' \<and> ir_fade_inv sr nl0 nr0 (Suc i) s'"
proof -
  obtain nl nr where s: "s = (nl, nr)" by (cases s)
  from assms(3) s have len: "length nl = length nl0" "length nr = length nr0"
    and pl: "\<forall>j<length nl0. nl ! j = nl0 ! j * ir_fade_fac sr (length nl0) i j"
    and pr: "\<forall>j<length nr0. nr ! j = nr0 ! j * ir_fade_fac sr (length nr0) i j"
    by (simp_all add: ir_fade_inv_def)
  let ?k = "real i / (real_of_int sr * 0.01)"
  define nl1 where "nl1 = nl[i := nl ! i * ?k]"
  define nr1 where "nr1 = nr[i := nr ! i * ?k]"
  define nl2 where "nl2 = nl1[length nl0 - 1 - i := nl1 ! (length nl0 - 1 - i) * ?k]"
  define nr2 where "nr2 = nr1[length nr0 - 1 - i := nr1 ! (length nr0 - 1 - i) * ?k]"
  have l1: "length nl1 = length nl0" "length nr1 = length nr0"
    using len by (simp_all add: nl1_def nr1_def)
  have a: "list_imul nl (int i) ?k = Inr nl1" "list_imul nr (int i) ?k = Inr nr1"
    using assms(1,2) len by (simp_all add: list_imul_front nl1_def nr1_def)
  have b: "list_imul nl1 (- int i - 1) ?k = Inr nl2" "list_imul nr1 (- int i - 1) ?k = Inr nr2"
    using assms(1,2) l1 by (simp_all add: list_imul_back nl2_def nr2_def)
  have step: "ir_fade_step sr i s = Inr (nl2, nr2)"
    unfolding ir_fade_step_def s by (simp only: prod.case Let_def a b sum.case)
  have "\<forall>j<length nl0. nl2 ! j = nl0 ! j * ir_fade_fac sr (length nl0) (Suc i) j"
    using fade_one_list[OF assms(1) len(1) pl nl1_def nl2_def] by blast
  moreover have "\<forall>j<length nr0. nr2 ! j = nr0 ! j * ir_fade_fac sr (length nr0) (Suc i) j"
    using fade_one_list[OF assms(2) len(2) pr nr1_def nr2_def] by blast
  moreover have "length nl2 = length nl0" "length nr2 = length nr0"
    using l1 by (simp_all add: nl2_def nr2_def)
  ultimately have "ir_fade_inv sr nl0 nr0 (Suc i) (nl2, nr2)" by (simp add: ir_fade_inv_def)
  with step show ?thesis by simp
qed

lemma ir_fade_loop_ok:
  assumes "c \<le> length nl0" "length nr0 = length nl0"
  shows "\<exists>nl nr. for_each [0..<c] (ir_fade_step sr) (nl0, nr0) = Inr (nl, nr) \<and>
           length nl = length nl0 \<and> length nr = length nl0 \<and>
           (\<forall>j<length nl0. nl ! j = nl0 ! j * ir_fade_fac sr (length nl0) c j) \<and>
           (\<forall>j<length nl0. nr ! j = nr0 ! j * ir_fade_fac sr (length nl0) c j)"
proof -
  let ?I = "ir_fade_inv sr nl0 nr0"
  have "\<exists>s'. for_each [0..<c] (ir_fade_step sr) (nl0, nr0) = Inr s' \<and> ?I c s'"
  proof (rule for_each_upt_inv[where I = ?I])
    show "?I 0 (nl0, nr0)" by (simp add: ir_fade_inv_def ir_fade_fac_def)
    show "0 \<le> c" by simp
    show "\<And>i s. 0 \<le> i \<Longrightarrow> i < c \<Longrightarrow> ?I i s \<Longrightarrow> \<exists>s'. ir_fade_step sr i s = Inr s' \<and> ?I (Suc i) s'"
      using assms by (intro ir_fade_step_inv) simp_all
  qed
  then obtain s' where s': "for_each [0..<c] (ir_fade_step sr) (nl0, nr0) = Inr s'" "?I c s'" by blast
  obtain nl nr where "s' = (nl, nr)" by (cases s')
  with s' assms show ?thesis by (auto simp: ir_fade_inv_def)
qed

lemma presets_medium_room: "map_of presets ''medium-room'' = Some medium_room"
  by (simp add: presets_def medium_room_def)

lemma generate_ir_resolved:
  "generate_ir H R name sr = ir_render R (resolve name) (1337 + H name) sr"
  unfolding generate_ir_def ir_render_def resolve_def presets_medium_room
  by (simp only: option.case Let_def)

lemma ir_render_ok:
  assumes "\<forall>(d, l)\<in>set (early p). 0 \<le> d" "0 \<le> sr"
    and "N = py_int (fl (real_of_int sr * fl (seconds p)))"
    and "c = nat (py_int (fl (real_of_int sr * fl 0.01)))"
    and "c \<le> nat N"
  shows "\<exists>nl nr. ir_render R p seed sr = Inr (nl, nr) \<and> length nl = nat N \<and> length nr = nat N \<and>
          (\<forall>j<nat N. nl ! j = (left_sum sr N (early p) j + tailL R seed (Suc j) * tail_gain p sr N j) *
                                ir_fade_fac sr (nat N) c j) \<and>
          (\<forall>j<nat N. nr ! j = (right_sum sr N (early p) j + tailR R seed (Suc j) * tail_gain p sr N j) *
                                ir_fade_fac sr (nat N) c j)"
proof -
  have "\<forall>(d, l)\<in>set (early p). 0 \<le> refl_off sr d"
    using assms(1,2) by (auto intro: refl_off_nonneg)
  from early_loop_ok[OF this, of "replicate (nat N) 0" N "replicate (nat N) 0"] obtain nl1 nr1 where
    e: "early_reflections sr N (early p) (replicate (nat N) 0, replicate (nat N) 0) = Inr (nl1, nr1)"
      "length nl1 = nat N" "length nr1 = nat N"
      "\<forall>k<nat N. nl1 ! k = left_sum sr N (early p) k"
      "\<forall>k<nat N. nr1 ! k = right_sum sr N (early p) k"
    by auto
  from tail_loop_ok[OF e(2,3), of R p sr N seed] obtain valL valR rnd nl2 nr2 where
    t: "for_each [0..<nat N] (tail_step R p sr N) (0, 0, py_Random seed, nl1, nr1) = Inr (valL, valR, rnd, nl2, nr2)"
      "length nl2 = nat N" "length nr2 = nat N"
      "\<forall>j<nat N. nl2 ! j = nl1 ! j + tailL R seed (Suc j) * tail_gain p sr N j"
      "\<forall>j<nat N. nr2 ! j = nr1 ! j + tailR R seed (Suc j) * tail_gain p sr N j"
    by blast
  have "c \<le> length nl2" "length nr2 = length nl2" using assms(5) t(2,3) by simp_all
  from ir_fade_loop_ok[OF this, of sr] obtain nl3 nr3 where
    f: "for_each [0..<c] (ir_fade_step sr) (nl2, nr2) = Inr (nl3, nr3)"
      "length nl3 = length nl2" "length nr3 = length nl2"
      "\<forall>j<length nl2. nl3 ! j = nl2 ! j * ir_fade_fac sr (length nl2) c j"
      "\<forall>j<length nl2. nr3 ! j = nr2 ! j * ir_fade_fac sr (length nl2) c j"
    by blast
  have run: "ir_render R p seed sr = Inr (nl3, nr3)"
    unfolding ir_render_def Let_def py_range_def assms(3)[symmetric] assms(4)[symmetric]
    by (simp only: e(1) t(1) f(1) sum.case prod.case)
  show ?thesis
    using run e(4,5) t(2,4,5) f(2-5) by (simp del: tailL.simps tailR.simps)
qed

lemma resolve_cases:
  "resolve name \<in> snd ` set presets"
  by (auto simp: resolve_def presets_def medium_room_def)

lemma ir_length_eval:
  "s = 0.9 \<Longrightarrow> py_int (fl (44100 * fl s)) = 39690"
  "s = 1.5 \<Longrightarrow> py_int (fl (44100 * fl s)) = 66150"
  "s = 2.6 \<Longrightarrow> py_int (fl (44100 * fl s)) = 114660"
  "s = 4.2 \<Longrightarrow> py_int (fl (44100 * fl s)) = 185220"
  "s = 1.8 \<Longrightarrow> py_int (fl (44100 * fl s)) = 79380"
proof -
  have a: "fl 0.9 = 8106479329266893 / 2 ^ 53"
    using fl_eval_lt1[of 0 "0.9"] by (simp add: rne_def)
  have a': "fl (44100 * (8106479329266893 / 2 ^ 53)) = 39690"
    using fl_eval_ge1[of 15 "44100 * (8106479329266893 / 2 ^ 53)"] by (simp add: rne_def)
  show "s = 0.9 \<Longrightarrow> py_int (fl (44100 * fl s)) = 39690"
    by (simp only: a a' py_int_numeral)
  have b: "fl 1.5 = 3 / 2"
    using fl_eval_ge1[of 0 "1.5"] by (simp add: rne_def)
  have b': "fl (44100 * (3 / 2)) = 66150"
    using fl_eval_ge1[of 16 "44100 * (3 / 2)"] by (simp add: rne_def)
  show "s = 1.5 \<Longrightarrow> py_int (fl (44100 * fl s)) = 66150"
    by (simp only: b b' py_int_numeral)
  have c: "fl 2.6 = 5854679515581645 / 2 ^ 51"
    using fl_eval_ge1[of 1 "2.6"] by (simp add: rne_def)
  have c': "fl (44100 * (5854679515581645 / 2 ^ 51)) = 114660"
    using fl_eval_ge1[of 16 "44100 * (5854679515581645 / 2 ^ 51)"] by (simp add: rne_def)
  show "s = 2.6 \<Longrightarrow> py_int (fl (44100 * fl s)) = 114660"
    by (simp only: c c' py_int_numeral)
  have d: "fl 4.2 = 4728779608739021 / 2 ^ 50"
    using fl_eval_ge1[of 2 "4.2"] by (simp add: rne_def)
  have d': "fl (44100 * (4728779608739021 / 2 ^ 50)) = 185220"
    using fl_eval_ge1[of 17 "44100 * (4728779608739021 / 2 ^ 50)"] by (simp add: rne_def)
  show "s = 4.2 \<Longrightarrow> py_int (fl (44100 * fl s)) = 185220"
    by (simp only: d d' py_int_numeral)
  have e: "fl 1.8 = 8106479329266893 / 2 ^ 52"
    using fl_eval_ge1[of 0 "1.8"] by (simp add: rne_def)
  have e': "fl (44100 * (8106479329266893 / 2 ^ 52)) = 79380"
    using fl_eval_ge1[of 16 "44100 * (8106479329266893 / 2 ^ 52)"] by (simp add: rne_def)
  show "s = 1.8 \<Longrightarrow> py_int (fl (44100 * fl s)) = 79380"
    by (simp only: e e' py_int_numeral)
qed

lemma preset_seconds:
  "p \<in> snd ` set presets \<Longrightarrow>
     seconds p = 0.9 \<or> seconds p = 1.5 \<or> seconds p = 2.6 \<or> seconds p = 4.2 \<or> seconds p = 1.8"
  by (auto simp: presets_def)

lemma preset_length_round:
  assumes "p \<in> snd ` set presets"
  shows "py_int (fl (44100 * fl (seconds p))) = round (44100 * seconds p) \<and>
         882 \<le> py_int (fl (44100 * fl (seconds p)))"
proof -
  have r: "round (44100 * 0.9 :: real) = 39690" "round (44100 * 1.5 :: real) = 66150"
    "round (44100 * 2.6 :: real) = 114660" "round (44100 * 4.2 :: real) = 185220"
    "round (44100 * 1.8 :: real) = 79380"
    by (simp_all add: round_def)
  from preset_seconds[OF assms] show ?thesis
  proof (elim disjE)
    assume s: "seconds p = 0.9"
    show ?thesis unfolding ir_length_eval(1)[OF s] unfolding s r by simp
  next
    assume s: "seconds p = 1.5"
    show ?thesis unfolding ir_length_eval(2)[OF s] unfolding s r by simp
  next
    assume s: "seconds p = 2.6"
    show ?thesis unfolding ir_length_eval(3)[OF s] unfolding s r by simp
  next
    assume s: "seconds p = 4.2"
    show ?thesis unfolding ir_length_eval(4)[OF s] unfolding s r by simp
  next
    assume s: "seconds p = 1.8"
    show ?thesis unfolding ir_length_eval(5)[OF s] unfolding s r by simp
  qed
qed

lemma presets_wellformed:
  assumes "p \<in> snd ` set presets"
  shows "(\<forall>(d, l)\<in>set (early p). 5 \<le> d) \<and> 882 \<le> py_int (fl (44100 * fl (seconds p))) \<and>
         0 \<le> hf_decay p \<and> hf_decay p \<le> 1"
proof -
  have "(\<forall>(d, l)\<in>set (early p). 5 \<le> d) \<and> 0 \<le> hf_decay p \<and> hf_decay p \<le> 1"
    using assms by (auto simp: presets_def)
  then show ?thesis using preset_length_round[OF assms] by simp
qed

lemma generate_ir_ok:
  "\<exists>nl nr. generate_ir H R name 44100 = Inr (nl, nr) \<and>
      length nl = nat (py_int (fl (44100 * fl (seconds (resolve name))))) \<and>
      length nr = nat (py_int (fl (44100 * fl (seconds (resolve name))))) \<and>
      (\<forall>j<length nl. nl ! j =
         (left_sum 44100 (py_int (fl (44100 * fl (seconds (resolve name))))) (early (resolve name)) j +
          tailL R (1337 + H name) (Suc j) *
            tail_gain (resolve name) 44100 (py_int (fl (44100 * fl (seconds (resolve name))))) j) *
         ir_fade_fac 44100 (length nl) 441 j) \<and>
      (\<forall>j<length nl. nr ! j =
         (right_sum 44100 (py_int (fl (44100 * fl (seconds (resolve name))))) (early (resolve name)) j +
          tailR R (1337 + H name) (Suc j) *
            tail_gain (resolve name) 44100 (py_int (fl (44100 * fl (seconds (resolve name))))) j) *
         ir_fade_fac 44100 (length nl) 441 j)"
proof -
  let ?p = "resolve name"
  let ?N = "py_int (fl (44100 * fl (seconds ?p)))"
  have wf: "\<forall>(d, l)\<in>set (early ?p). 0 \<le> d" "882 \<le> ?N"
    using presets_wellformed[OF resolve_cases[of name]] by auto
  have n: "?N = py_int (fl (real_of_int 44100 * fl (seconds ?p)))" by simp
  have c: "441 = nat (py_int (fl (real_of_int 44100 * fl 0.01)))" unfolding cnt_fade_ir by simp
  have le: "441 \<le> nat ?N" using wf(2) by simp
  from ir_render_ok[OF wf(1) _ n c le, of R "1337 + H name"]
  show ?thesis unfolding generate_ir_resolved
    by (auto simp del: tailL.simps tailR.simps)
qed

lemma resolve_preset: "(name, p) \<in> set presets \<Longrightarrow> resolve name = p"
  by (auto simp: presets_def resolve_def)

text \<open>
  Claim C4. For each of the five presets of the table, the impulse-response synthesizer
  returns two buffers of the same length, and that length is \<open>round(44100 *
  seconds)\<close>.
\<close>
theorem generate_ir_lengths:
  "\<forall>(name, p)\<in>set presets.
     \<exists>nl nr. generate_ir H R name 44100 = Inr (nl, nr) \<and> length nl = length nr \<and>
       int (length nl) = round (44100 * seconds p)"
proof (clarify)
  fix name p assume np: "(name, p) \<in> set presets"
  then have r: "resolve name = p" by (rule resolve_preset)
  from np have "p \<in> snd ` set presets" by force
  from preset_length_round[OF this]
  have n: "py_int (fl (44100 * fl (seconds p))) = round (44100 * seconds p)" "0 \<le> py_int (fl (44100 * fl (seconds p)))"
    by simp_all
  from generate_ir_ok[of H R name] obtain nl nr where
    g: "generate_ir H R name 44100 = Inr (nl, nr)"
       "length nl = nat (py_int (fl (44100 * fl (seconds (resolve name)))))"
       "length nr = nat (py_int (fl (44100 * fl (seconds (resolve name)))))"
    by blast
  have "int (length nl) = round (44100 * seconds p)" using g(2) n unfolding r by simp
  with g show "\<exists>nl nr. generate_ir H R name 44100 = Inr (nl, nr) \<and> length nl = length nr \<and>
       int (length nl) = round (44100 * seconds p)" by simp
qed

theorem generate_ir_lengths_witness:
  "(''hall'', \<lparr>decay = 1.8, seconds = 2.6, hf_decay = 0.55,
         early = [(9, 0.8), (17, 0.6), (31, 0.45), (47, 0.3)]\<rparr>) \<in> set presets \<and>
   (\<exists>nl nr. generate_ir demo_hash demo_rng ''hall'' 44100 = Inr (nl, nr) \<and> length nl = length nr \<and>
       length nl = 114660)"
proof -
  let ?p = "\<lparr>decay = 1.8, seconds = 2.6, hf_decay = 0.55,
         early = [(9, 0.8), (17, 0.6), (31, 0.45), (47, 0.3)]\<rparr>"
  have m: "(''hall'', ?p) \<in> set presets" by (simp add: presets_def)
  from generate_ir_lengths[of demo_hash demo_rng] m obtain nl nr where
    g: "generate_ir demo_hash demo_rng ''hall'' 44100 = Inr (nl, nr)" "length nl = length nr"
       "int (length nl) = round (44100 * seconds ?p)"
    by blast
  have "round (44100 * seconds ?p) = 114660" by (simp add: round_def)
  with g(3) have "length nl = 114660" by simp
  with m g show ?thesis by blast
qed

text \<open>
  Claim C1, amended. For every name that is not one of the five presets, the synthesizer
  uses the medium-room preset, and its output is the medium-room output computed with the
  generator seeded by \<open>1337 + hash(name)\<close>, the hash of the given name; it is
  identical to the output for \<open>medium-room\<close> whenever the two names have the
  same hash.
\<close>
theorem unknown_preset_seeded_by_name:
  assumes "name \<notin> {''studio'', ''medium-room'', ''hall'', ''cathedral'', ''plate''}"
  shows "generate_ir H R name sr = generate_ir (\<lambda>n. H name) R ''medium-room'' sr \<and>
         (H name = H ''medium-room'' \<longrightarrow>
            generate_ir H R name sr = generate_ir H R ''medium-room'' sr)"
proof -
  have "resolve name = medium_room"
    using assms by (simp add: resolve_def presets_def)
  moreover have "resolve ''medium-room'' = medium_room"
    by (simp add: resolve_def presets_medium_room)
  ultimately show ?thesis by (simp add: generate_ir_resolved)
qed

theorem unknown_preset_seeded_by_name_witness:
  "''garage'' \<notin> {''studio'', ''medium-room'', ''hall'', ''cathedral'', ''plate''} \<and>
   generate_ir demo_hash demo_rng ''garage'' 44100 =
     generate_ir (\<lambda>n. demo_hash ''garage'') demo_rng ''medium-room'' 44100 \<and>
   demo_hash ''concert-box'' = demo_hash ''medium-room'' \<and>
   generate_ir demo_hash demo_rng ''concert-box'' 44100 =
     generate_ir demo_hash demo_rng ''medium-room'' 44100"
proof -
  have a: "''garage'' \<notin> {''studio'', ''medium-room'', ''hall'', ''cathedral'', ''plate''}"
    and b: "''concert-box'' \<notin> {''studio'', ''medium-room'', ''hall'', ''cathedral'', ''plate''}"
    by simp_all
  have h: "demo_hash ''concert-box'' = demo_hash ''medium-room''"
    by (simp add: demo_hash_def)
  from unknown_preset_seeded_by_name[OF a, of demo_hash demo_rng 44100] unknown_preset_seeded_by_name[OF b, of demo_hash demo_rng 44100] a h
  show ?thesis by blast
qed

lemma ir_sample_1:
  assumes "882 \<le> length nl"
    and "nl ! 1 = (left_sum 44100 N es 1 + tailL R seed (Suc 1) * tail_gain p 44100 N 1) *
           ir_fade_fac 44100 (length nl) 441 1"
    and "left_sum 44100 N es 1 = 0"
  shows "nl ! 1 = ((0.05 * (R seed 0 * 2 - 1)) / 1.05 + 0.05 * (R seed 2 * 2 - 1)) / 1.05 *
           (tail_gain p 44100 N 1 / 441)"
proof -
  have f: "ir_fade_fac 44100 (length nl) 441 1 = 1 / 441"
    using assms(1) by (simp add: ir_fade_fac_def)
  have t: "tailL R seed (Suc 1) = ((0.05 * (R seed 0 * 2 - 1)) / 1.05 + 0.05 * (R seed 2 * 2 - 1)) / 1.05"
    by simp
  show ?thesis unfolding assms(2) assms(3) f t by simp
qed

lemma tail_gain_pos:
  assumes "p \<in> snd ` set presets"
  shows "0 < tail_gain p 44100 (py_int (fl (44100 * fl (seconds p)))) 1"
proof -
  have w: "882 \<le> py_int (fl (44100 * fl (seconds p)))" "0 \<le> hf_decay p" "hf_decay p \<le> 1"
    using presets_wellformed[OF assms] by simp_all
  define N where "N = real_of_int (py_int (fl (44100 * fl (seconds p))))"
  have N: "882 \<le> N" using w(1) by (simp add: N_def)
  then have a: "0 \<le> 1 / N" "1 / N < 1" by simp_all
  have "hf_decay p * (1 / N) \<le> 1 * (1 / N)"
    using w(3) a(1) by (rule mult_right_mono)
  with a(2) have "hf_decay p * (1 / N) < 1" by linarith
  then have "0 < 1 - hf_decay p * (real 1 / real_of_int (py_int (fl (44100 * fl (seconds p)))))"
    by (simp add: N_def)
  then show ?thesis unfolding tail_gain_def by (simp add: zero_less_mult_iff)
qed

lemma left_sum_far:
  assumes "\<forall>(d, l)\<in>set es. 5 \<le> d"
  shows "left_sum 44100 N es 1 = 0"
  using assms
proof (induction es)
  case Nil
  then show ?case by (simp add: left_sum_def)
next
  case (Cons x es)
  obtain d l where x: "x = (d, l)" by (cases x)
  have "128 \<le> refl_off 44100 d" using Cons.prems x by (intro refl_off_far) simp
  then have "refl_off 44100 d \<noteq> int 1" by simp
  moreover have "left_sum 44100 N es 1 = 0" using Cons by simp
  ultimately show ?case by (simp add: left_sum_def x)
qed

lemma left_sum_1:
  assumes "p \<in> snd ` set presets"
  shows "left_sum 44100 N (early p) 1 = 0"
  using presets_wellformed[OF assms] by (intro left_sum_far) simp

lemma ir_left_1:
  "\<exists>nl nr. generate_ir H R name 44100 = Inr (nl, nr) \<and>
     nl ! 1 = ((0.05 * (R (1337 + H name) 0 * 2 - 1)) / 1.05 + 0.05 * (R (1337 + H name) 2 * 2 - 1)) / 1.05 *
           (tail_gain (resolve name) 44100 (py_int (fl (44100 * fl (seconds (resolve name))))) 1 / 441)"
proof -
  let ?p = "resolve name"
  let ?N = "py_int (fl (44100 * fl (seconds ?p)))"
  from generate_ir_ok[of H R name] obtain nl nr where
    g: "generate_ir H R name 44100 = Inr (nl, nr)"
       "length nl = nat ?N"
       "\<forall>j<length nl. nl ! j =
         (left_sum 44100 ?N (early ?p) j + tailL R (1337 + H name) (Suc j) * tail_gain ?p 44100 ?N j) *
         ir_fade_fac 44100 (length nl) 441 j"
    by blast
  have big: "882 \<le> length nl"
    using presets_wellformed[OF resolve_cases[of name]] g(2) by linarith
  then have "1 < length nl" by simp
  with g(3) have v: "nl ! 1 =
         (left_sum 44100 ?N (early ?p) 1 + tailL R (1337 + H name) (Suc 1) * tail_gain ?p 44100 ?N 1) *
         ir_fade_fac 44100 (length nl) 441 1" by blast
  from ir_sample_1[OF big v left_sum_1[OF resolve_cases]] g(1) show ?thesis by blast
qed

lemma ir_outputs_differ:
  assumes "resolve name1 = resolve name2"
    and "((0.05 * (R (1337 + H1 name1) 0 * 2 - 1)) / 1.05 + 0.05 * (R (1337 + H1 name1) 2 * 2 - 1)) / 1.05 \<noteq>
         ((0.05 * (R (1337 + H2 name2) 0 * 2 - 1)) / 1.05 + 0.05 * (R (1337 + H2 name2) 2 * 2 - 1)) / 1.05"
  shows "generate_ir H1 R name1 44100 \<noteq> generate_ir H2 R name2 44100"
proof
  assume eq: "generate_ir H1 R name1 44100 = generate_ir H2 R name2 44100"
  let ?g = "tail_gain (resolve name2) 44100 (py_int (fl (44100 * fl (seconds (resolve name2))))) 1 / 441"
  from ir_left_1[of H1 R name1] obtain nl nr where
    a: "generate_ir H1 R name1 44100 = Inr (nl, nr)"
       "nl ! 1 = ((0.05 * (R (1337 + H1 name1) 0 * 2 - 1)) / 1.05 + 0.05 * (R (1337 + H1 name1) 2 * 2 - 1)) / 1.05 * ?g"
    unfolding assms(1) by blast
  from ir_left_1[of H2 R name2] obtain nl' nr' where
    b: "generate_ir H2 R name2 44100 = Inr (nl', nr')"
       "nl' ! 1 = ((0.05 * (R (1337 + H2 name2) 0 * 2 - 1)) / 1.05 + 0.05 * (R (1337 + H2 name2) 2 * 2 - 1)) / 1.05 * ?g"
    by blast
  have "nl = nl'" using eq a(1) b(1) by simp
  then have "nl ! 1 = nl' ! 1" by simp
  moreover have "?g \<noteq> 0" using tail_gain_pos[OF resolve_cases[of name2]] by simp
  ultimately show False using a(2) b(2) assms(2) by simp
qed

text \<open>
  Claim C1, as stated, fails: the seed is \<open>1337 + hash(name)\<close> with the name as
  given, not the name of the preset substituted for it. With a hash that separates
  \<open>garage\<close> from \<open>medium-room\<close> and a generator whose draws depend
  on the seed, the two left channels differ at index 1.
\<close>
theorem unknown_preset_counterexample:
  "''garage'' \<notin> {''studio'', ''medium-room'', ''hall'', ''cathedral'', ''plate''} \<and>
   generate_ir demo_hash demo_rng ''garage'' 44100 \<noteq> generate_ir demo_hash demo_rng ''medium-room'' 44100"
proof -
  have "resolve ''garage'' = resolve ''medium-room''"
    by (simp add: resolve_def presets_def medium_room_def)
  then have "generate_ir demo_hash demo_rng ''garage'' 44100 \<noteq> generate_ir demo_hash demo_rng ''medium-room'' 44100"
    by (rule ir_outputs_differ) (simp add: demo_hash_def demo_rng_def)
  then show ?thesis by simp
qed

text \<open>
  Claim C8. The impulse-response synthesizer does not do what the claim says. It seeds its
  generator with \<open>1337 + hash(name)\<close>, and the hash of a string is salted anew in
  every interpreter process, so two runs give the same name two seeds. The claim holds
  of the placeholder notes, seeded with \<open>2025 + midi\<close>, an integer. Here are two
  calls with the name \<open>hall\<close> under two string hashes that differ on it: the left
  buffers differ at index 1.
\<close>
theorem ir_hash_dependence_counterexample:
  "generate_ir demo_hash demo_rng ''hall'' 44100 \<noteq> generate_ir demo_hash_other demo_rng ''hall'' 44100"
  by (rule ir_outputs_differ) (simp_all add: demo_hash_def demo_hash_other_def demo_rng_def)

section \<open>Properties of the PCM encoder\<close>

lemma py_int_spec_trunc: "py_int y = spec_trunc y"
  by (simp add: py_int_def spec_trunc_def ceiling_def)

lemma clamp_spec: "max (- 1) (min 1 x) = spec_clamp x"
  by (simp add: spec_clamp_def min_def max_def)

lemma pcm16_spec: "pcm16 x = spec_sample x"
  unfolding pcm16_def spec_sample_def clamp_spec py_int_spec_trunc ..

lemma fl_bounded:
  assumes "- B \<le> y" "y \<le> B" "fl B = B" "0 \<le> B"
  shows "- B \<le> fl y \<and> fl y \<le> B"
proof -
  have up: "fl z \<le> B" if "z \<le> B" for z
  proof (cases "0 < z")
    case True
    then show ?thesis using that assms(3) by (rule fl_upper)
  next
    case False
    then have "fl z \<le> 0" by (intro fl_nonpos) simp
    then show ?thesis using assms(4) by simp
  qed
  have "fl (- y) \<le> B" using assms(1) by (intro up) simp
  then have "- B \<le> fl y" by (simp add: fl_minus)
  moreover have "fl y \<le> B" using assms(2) by (rule up)
  ultimately show ?thesis by simp
qed

lemma pcm16_range: "- 32767 \<le> pcm16 x \<and> pcm16 x \<le> 32767"
proof -
  let ?c = "max (- 1) (min 1 x)"
  have c: "- 1 \<le> ?c" "?c \<le> 1" by simp_all
  then have "- 32767 \<le> ?c * 32767" "?c * 32767 \<le> 32767" by simp_all
  then have "- 32767 \<le> fl (?c * 32767) \<and> fl (?c * 32767) \<le> 32767"
    using fl_numeral_small(3) by (intro fl_bounded) simp_all
  then show ?thesis
    unfolding pcm16_def py_int_def
    by (auto simp: le_floor_iff floor_le_iff le_ceiling_iff ceiling_le_iff)
qed

lemma byte_low: "(word_of_int (v mod 65536 mod 256) :: 8 word) = word_of_int v"
    by (simp add: word_of_int_eq_iff take_bit_eq_mod mod_mod_cancel)

lemma mod65536_split: "(v::int) mod 65536 = 256 * (v div 256 mod 256) + v mod 256"
  using zmod_zmult2_eq[of 256 v 256] by simp

lemma mod65536_high: "(v mod 65536 div 256) = (v div 256) mod (256::int)"
  unfolding mod65536_split by simp

lemma byte_high: "(word_of_int (v mod 65536 div 256) :: 8 word) = word_of_int (v div 256)"
  unfolding mod65536_high by (simp add: word_of_int_eq_iff take_bit_eq_mod)

lemma uint_byte_low: "uint (word_of_int (v mod 65536 mod 256) :: 8 word) = v mod 256"
  unfolding byte_low by (simp add: uint_word_of_int take_bit_eq_mod)

lemma uint_byte_high: "uint (word_of_int (v mod 65536 div 256) :: 8 word) = v div 256 mod 256"
  unfolding byte_high by (simp add: uint_word_of_int take_bit_eq_mod)

lemma signed16:
  assumes "- 32768 \<le> v" "v \<le> 32767"
  shows "(if v mod 65536 < 32768 then v mod 65536 else v mod 65536 - 65536) = (v::int)"
proof (cases "0 \<le> v")
  case True
  then have "v mod 65536 = v" using assms by simp
  then show ?thesis using assms by simp
next
  case False
  then have "(v + 65536) mod 65536 = v + 65536" using assms by (intro mod_pos_pos_trivial) simp_all
  then have "v mod 65536 = v + 65536" by simp
  then show ?thesis using False assms by simp
qed

lemma pack_h_spec:
  assumes "- 32768 \<le> v" "v \<le> 32767"
  shows "pack_h v = Inr (spec_le16 v)"
  using assms by (simp add: pack_h_def spec_le16_def byte_low byte_high)

lemma pack_h_pcm16: "pack_h (pcm16 x) = Inr (spec_le16 (spec_sample x))"
proof -
  have "- 32768 \<le> pcm16 x" "pcm16 x \<le> 32767" using pcm16_range[of x] by simp_all
  then have "pack_h (pcm16 x) = Inr (spec_le16 (pcm16 x))" by (rule pack_h_spec)
  then show ?thesis by (simp add: pcm16_spec)
qed

lemma unpack_pack:
  assumes "- 32768 \<le> v" "v \<le> 32767"
  shows "unpack_h (spec_le16 v @ bs) = v # unpack_h bs"
proof -
  have u: "v mod 256 + 256 * (v div 256 mod 256) = v mod 65536"
    by (simp add: mod65536_split)
  show ?thesis
    unfolding spec_le16_def
    by (simp only: append.simps unpack_h.simps uint_byte_low uint_byte_high u Let_def signed16[OF assms])
qed

lemma mono_step_ok:
  "mono_step data i frames = Inr (frames @ spec_le16 (spec_sample (data ! i)))"
  by (simp add: mono_step_def pack_h_pcm16)

lemma mono_loop:
  "for_each [0..<length data] (mono_step data) [] = Inr (spec_mono_frames data)"
proof -
  let ?I = "\<lambda>k frames. frames = spec_mono_frames (take k data)"
  have "\<exists>s'. for_each [0..<length data] (mono_step data) [] = Inr s' \<and> ?I (length data) s'"
  proof (rule for_each_upt_inv[where I = ?I])
    show "[] = spec_mono_frames (take 0 data)" by (simp add: spec_mono_frames_def)
    show "0 \<le> length data" by simp
    fix i s assume "i < length data" "s = spec_mono_frames (take i data)"
    then show "\<exists>s'. mono_step data i s = Inr s' \<and> s' = spec_mono_frames (take (Suc i) data)"
      by (simp add: mono_step_ok spec_mono_frames_def take_Suc_conv_app_nth)
  qed
  then show ?thesis by simp
qed

lemma stereo_step_ok:
  "i < length dataR \<Longrightarrow> stereo_step dataL dataR i frames =
     Inr (frames @ spec_le16 (spec_sample (dataL ! i)) @ spec_le16 (spec_sample (dataR ! i)))"
  by (simp add: stereo_step_def pack_hh_def pack_h_pcm16)

lemma stereo_step_err:
  "length dataR \<le> i \<Longrightarrow> stereo_step dataL dataR i frames = Inl IndexError"
  by (simp add: stereo_step_def)

lemma stereo_loop_upto:
  assumes "n \<le> length dataL" "n \<le> length dataR"
  shows "for_each [0..<n] (stereo_step dataL dataR) [] =
           Inr (spec_stereo_frames (take n dataL) (take n dataR))"
proof -
  let ?I = "\<lambda>k frames. frames = spec_stereo_frames (take k dataL) (take k dataR)"
  have "\<exists>s'. for_each [0..<n] (stereo_step dataL dataR) [] = Inr s' \<and> ?I n s'"
  proof (rule for_each_upt_inv[where I = ?I])
    show "[] = spec_stereo_frames (take 0 dataL) (take 0 dataR)" by (simp add: spec_stereo_frames_def)
    show "0 \<le> n" by simp
    fix i s assume i: "i < n" and s: "s = spec_stereo_frames (take i dataL) (take i dataR)"
    have il: "i < length dataL" "i < length dataR" using i assms by simp_all
    have "spec_stereo_frames (take (Suc i) dataL) (take (Suc i) dataR) =
          spec_stereo_frames (take i dataL) (take i dataR) @
          spec_le16 (spec_sample (dataL ! i)) @ spec_le16 (spec_sample (dataR ! i))"
      using il by (simp add: spec_stereo_frames_def take_Suc_conv_app_nth)
    then show "\<exists>s'. stereo_step dataL dataR i s = Inr s' \<and>
        s' = spec_stereo_frames (take (Suc i) dataL) (take (Suc i) dataR)"
      using il s by (simp add: stereo_step_ok)
  qed
  then show ?thesis by simp
qed

lemma zip_take_right: "zip xs (take (length xs) ys) = zip xs ys"
proof -
  have "zip xs (take (length xs) ys) = take (length xs) (zip xs ys)"
    by (simp add: take_zip)
  then show ?thesis by simp
qed

lemma spec_stereo_take:
  "spec_stereo_frames dataL (take (length dataL) dataR) = spec_stereo_frames dataL dataR"
  by (simp add: spec_stereo_frames_def zip_take_right)

lemma stereo_loop_ok:
  assumes "length dataL \<le> length dataR"
  shows "for_each [0..<length dataL] (stereo_step dataL dataR) [] = Inr (spec_stereo_frames dataL dataR)"
  using stereo_loop_upto[of "length dataL" dataL dataR] assms by (simp add: spec_stereo_take)

lemma stereo_loop_err:
  assumes "length dataR < length dataL"
  shows "for_each [0..<length dataL] (stereo_step dataL dataR) [] = Inl IndexError"
proof -
  let ?n = "length dataR"
  have split: "[0..<length dataL] = [0..<?n] @ ?n # [Suc ?n..<length dataL]"
    using assms by (metis le0 less_imp_le_nat upt_add_eq_append upt_conv_Cons le_add_diff_inverse)
  have "for_each [0..<?n] (stereo_step dataL dataR) [] =
          Inr (spec_stereo_frames (take ?n dataL) (take ?n dataR))"
    using assms by (intro stereo_loop_upto) simp_all
  then show ?thesis by (simp add: split for_each_append stereo_step_err)
qed

lemma spec_sample_range: "- 32768 \<le> spec_sample x \<and> spec_sample x \<le> 32767"
  using pcm16_range[of x] by (simp add: pcm16_spec)

lemma unpack_mono: "unpack_h (spec_mono_frames data) = map spec_sample data"
proof (induction data)
  case Nil
  then show ?case by (simp add: spec_mono_frames_def)
next
  case (Cons x data)
  have "spec_mono_frames (x # data) = spec_le16 (spec_sample x) @ spec_mono_frames data"
    by (simp add: spec_mono_frames_def)
  then show ?case using Cons spec_sample_range[of x] by (simp add: unpack_pack)
qed

lemma unpack_stereo:
  "unpack_h (spec_stereo_frames dataL dataR) =
     concat (map (\<lambda>(l, r). [spec_sample l, spec_sample r]) (zip dataL dataR))"
proof (induction dataL arbitrary: dataR)
  case Nil
  then show ?case by (simp add: spec_stereo_frames_def)
next
  case (Cons l dataL)
  show ?case
  proof (cases dataR)
    case Nil
    then show ?thesis by (simp add: spec_stereo_frames_def)
  next
    case (Cons r rs)
    have "spec_stereo_frames (l # dataL) (r # rs) =
          spec_le16 (spec_sample l) @ spec_le16 (spec_sample r) @ spec_stereo_frames dataL rs"
      by (simp add: spec_stereo_frames_def)
    then show ?thesis
      using Cons Cons.IH[of rs] spec_sample_range[of l] spec_sample_range[of r]
      by (simp add: unpack_pack)
  qed
qed

lemma length_spec_mono: "length (spec_mono_frames data) = 2 * length data"
  by (induction data) (simp_all add: spec_mono_frames_def spec_le16_def)

lemma length_spec_stereo:
  "length (spec_stereo_frames dataL dataR) = 4 * min (length dataL) (length dataR)"
proof (induction dataL arbitrary: dataR)
  case Nil
  then show ?case by (simp add: spec_stereo_frames_def)
next
  case (Cons l dataL)
  then show ?case
    by (cases dataR) (simp_all add: spec_stereo_frames_def spec_le16_def)
qed

lemma write_wav_mono_frames:
  assumes "0 < sr" "2 * sr < 2 ^ 32" "36 + 2 * int (length data) < 2 ^ 32"
  shows "write_wav_mono data sr =
      Inr \<lparr>nchannels = 1, sampwidth = 2, framerate = sr, framedata = spec_mono_frames data\<rparr>"
proof -
  have "wave_header_ok 1 sr (length (spec_mono_frames data))"
    using assms by (simp add: wave_header_ok_def length_spec_mono)
  then show ?thesis
    using assms(1) by (simp add: write_wav_mono_def py_range_def mono_loop)
qed

lemma write_wav_stereo_frames:
  assumes "0 < sr" "4 * sr < 2 ^ 32" "length dataL \<le> length dataR"
    "36 + 4 * int (length dataL) < 2 ^ 32"
  shows "write_wav_stereo dataL dataR sr =
      Inr \<lparr>nchannels = 2, sampwidth = 2, framerate = sr, framedata = spec_stereo_frames dataL dataR\<rparr>"
proof -
  have "wave_header_ok 2 sr (length (spec_stereo_frames dataL dataR))"
    using assms by (simp add: wave_header_ok_def length_spec_stereo min_def)
  then show ?thesis
    using assms(1,3) by (simp add: write_wav_stereo_def py_range_def stereo_loop_ok)
qed

text \<open>
  Claim C5. For every input, the PCM encoder clamps each sample to \<open>[-1, 1]\<close>, multiplies
  it by 32767, a float multiplication whose result is the exact product rounded to the
  nearest double, and truncates it to a signed 16-bit integer, written as two bytes, low
  byte first; a stereo file interleaves left and right per frame; and the header carries the
  channel count (1 for mono, 2 for stereo), a sample width of 2 bytes and the given sample
  rate. This holds for a positive rate, a rate and a data size that fit the 32-bit fields
  of the header, and, for stereo, a right buffer at least as long as the left.
\<close>
theorem pcm_encoder_refines_spec:
  "(0 < sr \<and> 2 * sr < 2 ^ 32 \<and> 36 + 2 * int (length data) < 2 ^ 32 \<longrightarrow>
      write_wav_mono data sr =
        Inr \<lparr>nchannels = 1, sampwidth = 2, framerate = sr, framedata = spec_mono_frames data\<rparr>) \<and>
   (0 < sr \<and> 4 * sr < 2 ^ 32 \<and> length dataL \<le> length dataR \<and>
    36 + 4 * int (length dataL) < 2 ^ 32 \<longrightarrow>
      write_wav_stereo dataL dataR sr =
        Inr \<lparr>nchannels = 2, sampwidth = 2, framerate = sr,
             framedata = spec_stereo_frames dataL dataR\<rparr>)"
  by (simp add: write_wav_mono_frames write_wav_stereo_frames)

lemma fl_sample_products:
  "fl (32767 / 2) = 32767 / 2" "fl (32767 / 4) = 32767 / 4"
  "fl (35185445863425 / 2 ^ 60 * 32767) = 1"
  using fl_eval_ge1[of 13 "32767 / 2"] fl_eval_ge1[of 12 "32767 / 4"]
    fl_eval_lt1[of 0 "35185445863425 / 2 ^ 60 * 32767"]
  by (simp_all add: rne_def)

lemma sample_values:
  "spec_sample (1 / 2) = 16383" "spec_sample (- 2) = - 32767" "spec_sample 3 = 32767"
  "spec_sample (- (1 / 4)) = - 8191" "spec_sample (35185445863425 / 2 ^ 60) = 1"
proof -
  have a: "spec_clamp (1 / 2) * 32767 = 32767 / 2" "spec_clamp (- 2) * 32767 = - 32767"
    "spec_clamp 3 * 32767 = 32767" "spec_clamp (- (1 / 4)) * 32767 = - (32767 / 4)"
    "spec_clamp (35185445863425 / 2 ^ 60) * 32767 = 35185445863425 / 2 ^ 60 * 32767"
    by (simp_all add: spec_clamp_def)
  show "spec_sample (1 / 2) = 16383"
    unfolding spec_sample_def a fl_sample_products by (simp add: spec_trunc_def)
  show "spec_sample (- 2) = - 32767"
    unfolding spec_sample_def a fl_minus fl_numeral_small by (simp add: spec_trunc_def)
  show "spec_sample 3 = 32767"
    unfolding spec_sample_def a fl_numeral_small by (simp add: spec_trunc_def)
  show "spec_sample (- (1 / 4)) = - 8191"
    unfolding spec_sample_def a fl_minus fl_sample_products by (simp add: spec_trunc_def)
  show "spec_sample (35185445863425 / 2 ^ 60) = 1"
    unfolding spec_sample_def a fl_sample_products by (simp add: spec_trunc_def)
qed

lemma sample_value_tiny: "spec_sample (35185445863425 / 1152921504606846976) = 1"
  using sample_values(5) by simp

lemma le16_values:
  "spec_le16 16383 = [255, 63]" "spec_le16 (- 32767) = [1, 128]" "spec_le16 32767 = [255, 127]"
  "spec_le16 (- 8191) = [1, 224]" "spec_le16 1 = [1, 0]"
  by (simp_all add: spec_le16_def)

theorem pcm_encoder_refines_spec_witness:
  "write_wav_mono [1 / 2, - 2, 3, 35185445863425 / 2 ^ 60] 44100 =
     Inr \<lparr>nchannels = 1, sampwidth = 2, framerate = 44100,
          framedata = [255, 63, 1, 128, 255, 127, 1, 0]\<rparr> \<and>
   write_wav_stereo [1 / 2, - 2] [3, - 1 / 4] 44100 =
     Inr \<lparr>nchannels = 2, sampwidth = 2, framerate = 44100,
          framedata = [255, 63, 255, 127, 1, 128, 1, 224]\<rparr>"
  using pcm_encoder_refines_spec[of 44100 "[1 / 2, - 2, 3, 35185445863425 / 2 ^ 60]" "[1 / 2, - 2]" "[3, - 1 / 4]"]
  by (simp add: spec_mono_frames_def spec_stereo_frames_def sample_values sample_value_tiny
      le16_values)

text \<open>
  Claim C10. Every value the PCM encoder quantizes lies in \<open>[-32767, 32767]\<close>, so it is
  never \<open>-32768\<close>, and every 16-bit value read back from the frames of a written mono or
  stereo file lies in that range.
\<close>
theorem pcm_values_in_range:
  "(- 32767 \<le> pcm16 x \<and> pcm16 x \<le> 32767 \<and> pcm16 x \<noteq> - 32768) \<and>
   (write_wav_mono data sr = Inr w \<longrightarrow>
      (\<forall>v\<in>set (unpack_h (framedata w)). - 32767 \<le> v \<and> v \<le> 32767)) \<and>
   (write_wav_stereo dataL dataR sr = Inr w' \<longrightarrow>
      (\<forall>v\<in>set (unpack_h (framedata w')). - 32767 \<le> v \<and> v \<le> 32767))"
proof (intro conjI impI)
  show "- 32767 \<le> pcm16 x" "pcm16 x \<le> 32767" "pcm16 x \<noteq> - 32768"
    using pcm16_range[of x] by simp_all
next
  assume "write_wav_mono data sr = Inr w"
  then have "framedata w = spec_mono_frames data"
    by (auto simp: write_wav_mono_def py_range_def mono_loop split: if_splits)
  then have "unpack_h (framedata w) = map pcm16 data"
    by (simp add: unpack_mono pcm16_spec[abs_def])
  then show "\<forall>v\<in>set (unpack_h (framedata w)). - 32767 \<le> v \<and> v \<le> 32767"
    using pcm16_range by auto
next
  assume w: "write_wav_stereo dataL dataR sr = Inr w'"
  have "length dataL \<le> length dataR"
  proof (rule ccontr)
    assume "\<not> ?thesis"
    then have "for_each [0..<length dataL] (stereo_step dataL dataR) [] = Inl IndexError"
      by (intro stereo_loop_err) simp
    with w show False by (simp add: write_wav_stereo_def py_range_def split: if_splits)
  qed
  with w have "framedata w' = spec_stereo_frames dataL dataR"
    by (auto simp: write_wav_stereo_def py_range_def stereo_loop_ok split: if_splits)
  then have "unpack_h (framedata w') =
      concat (map (\<lambda>(l, r). [pcm16 l, pcm16 r]) (zip dataL dataR))"
    by (simp add: unpack_stereo pcm16_spec[abs_def])
  then show "\<forall>v\<in>set (unpack_h (framedata w')). - 32767 \<le> v \<and> v \<le> 32767"
    using pcm16_range by auto
qed

theorem pcm_values_in_range_witness:
  "(\<exists>w. write_wav_mono [1 / 2, - 2, 3] 44100 = Inr w \<and>
        unpack_h (framedata w) = [16383, - 32767, 32767] \<and>
        (\<forall>v\<in>set (unpack_h (framedata w)). - 32767 \<le> v \<and> v \<le> 32767)) \<and>
   (\<exists>w'. write_wav_stereo [1 / 2, - 2] [3, - 1 / 4] 44100 = Inr w' \<and>
        unpack_h (framedata w') = [16383, 32767, - 32767, - 8191] \<and>
        (\<forall>v\<in>set (unpack_h (framedata w')). - 32767 \<le> v \<and> v \<le> 32767))"
proof -
  let ?w = "\<lparr>nchannels = 1, sampwidth = 2, framerate = 44100,
          framedata = spec_mono_frames [1 / 2, - 2, 3]\<rparr>"
  let ?w' = "\<lparr>nchannels = 2, sampwidth = 2, framerate = 44100,
          framedata = spec_stereo_frames [1 / 2, - 2] [3, - 1 / 4]\<rparr>"
  have m: "write_wav_mono [1 / 2, - 2, 3] 44100 = Inr ?w"
    by (rule write_wav_mono_frames) simp_all
  have s: "write_wav_stereo [1 / 2, - 2] [3, - 1 / 4] 44100 = Inr ?w'"
    by (rule write_wav_stereo_frames) simp_all
  have um: "unpack_h (framedata ?w) = [16383, - 32767, 32767]"
    by (simp add: unpack_mono sample_values)
  have us: "unpack_h (framedata ?w') = [16383, 32767, - 32767, - 8191]"
    by (simp add: unpack_stereo sample_values)
  from pcm_values_in_range[of 0 "[1 / 2, - 2, 3]" 44100 ?w "[1 / 2, - 2]" "[3, - 1 / 4]" ?w'] m s um us
  show ?thesis by blast
qed

end
